theory Spec2Isabelle
  imports Complex_Main "HOL-Library.Word"
begin

section \<open>Data model of the dashboard (dashboard/main.go)\<close>

text \<open>
  A finite \<^verbatim>\<open>float64\<close> denotes a rational number; the dashboard never computes with its
  floats, it only stores and prints them, so a float is modelled by the rational it
  denotes. NaN and the infinities cannot come out of a JSON document. Unsigned 64-bit
  fields are words. \<^verbatim>\<open>LatencyMs\<close> is an \<^verbatim>\<open>int64\<close> that is only stored and printed; it is
  an integer here.
\<close>

type_synonym float64 = rat
type_synonym uint64 = "64 word"

text \<open>
  \<^verbatim>\<open>time.Time\<close>: an instant, held as its civil date and clock in UTC plus the nanosecond
  within the second.
\<close>

record Instant =
  year :: nat
  month :: nat
  day :: nat
  hour :: nat
  minute :: nat
  second :: nat
  nsec :: nat

record Alerts =
  CPUPct :: float64
  MemPct :: float64
  DiskPct :: float64
  TxBps :: float64
  RxBps :: float64

record Node =
  Name :: string
  URL :: string
  Group :: string
  Alerts :: "Alerts option"

record Config =
  ListenAddr :: string
  RefreshSeconds :: int
  HistoryLimit :: int
  Nodes :: "Node list"

record DiskStat =
  Mountpoint :: string
  UsedPct :: float64
  TotalBytes :: uint64
  UsedBytes :: uint64

record NetStat =
  TxBytesPerSec :: float64
  RxBytesPerSec :: float64

text \<open>\<^verbatim>\<open>Disks\<close> is a slice: \<open>None\<close> is the nil slice.\<close>

record AgentMetrics =
  Hostname :: string
  TimestampISO :: string
  CPUPercent :: float64
  MemPercent :: float64
  UptimeSec :: uint64
  Disks :: "DiskStat list option"
  Net :: NetStat

record Sample =
  Time :: Instant
  Agent :: AgentMetrics
  LatencyMs :: int
  Error :: string
  Node :: Node

text \<open>
  The two maps of \<^verbatim>\<open>State\<close> hold values: \<^verbatim>\<open>map[string][]Sample\<close> and
  \<^verbatim>\<open>map[string]Sample\<close>. A nil map is \<open>None\<close>. The mutex is not modelled: every
  function below is the body of one critical section.
\<close>

record State =
  Config :: Config
  history :: "(string \<rightharpoonup> Sample list) option"
  latest :: "(string \<rightharpoonup> Sample) option"

text \<open>The zero value \<^verbatim>\<open>AgentMetrics{}\<close>.\<close>

definition zeroAgentMetrics :: AgentMetrics where
  "zeroAgentMetrics =
     \<lparr>Hostname = [], TimestampISO = [], CPUPercent = 0, MemPercent = 0, UptimeSec = 0,
      Disks = None, Net = \<lparr>TxBytesPerSec = 0, RxBytesPerSec = 0\<rparr>\<rparr>"

section \<open>Configuration defaults (loadConfig)\<close>

text \<open>
  \<^verbatim>\<open>loadConfig\<close> after the file is read: \<open>None\<close> is a file that could not be read, the
  argument of \<open>Some\<close> is what the YAML decoder returned (an error message or the decoded
  configuration).
\<close>

definition loadConfig :: "(string + Config) option \<Rightarrow> string + Config" where
  "loadConfig file =
     (case file of
        None \<Rightarrow> Inr \<lparr>ListenAddr = ''0.0.0.0:8080'', RefreshSeconds = 2, HistoryLimit = 500,
                     Nodes = []\<rparr>
      | Some (Inl err) \<Rightarrow> Inl err
      | Some (Inr c) \<Rightarrow>
          (let c1 = (if ListenAddr c = [] then c\<lparr>ListenAddr := ''0.0.0.0:8080''\<rparr> else c);
               c2 = (if RefreshSeconds c1 \<le> 0 then c1\<lparr>RefreshSeconds := 2\<rparr> else c1);
               c3 = (if HistoryLimit c2 \<le> 0 then c2\<lparr>HistoryLimit := 500\<rparr> else c2)
           in Inr c3))"

text \<open>The state \<^verbatim>\<open>main\<close> builds: both maps empty, not nil.\<close>

definition initState :: "Config \<Rightarrow> State" where
  "initState cfg = \<lparr>Config = cfg, history = Some Map.empty, latest = Some Map.empty\<rparr>"

section \<open>The store: reads and the commit step of pollAll\<close>

text \<open>
  \<^verbatim>\<open>s.history[name]\<close> and \<^verbatim>\<open>s.latest[name]\<close>. Reading a nil map or a missing key gives
  the zero value: for the history a nil slice (\<open>None\<close>); for the latest sample the
  two-result form \<^verbatim>\<open>samp, ok := s.latest[name]\<close> is modelled, \<open>None\<close> being
  \<^verbatim>\<open>ok == false\<close>.
\<close>

definition history_at :: "State \<Rightarrow> string \<Rightarrow> Sample list option" where
  "history_at s name = (case history s of None \<Rightarrow> None | Some m \<Rightarrow> m name)"

definition latest_at :: "State \<Rightarrow> string \<Rightarrow> Sample option" where
  "latest_at s name = (case latest s of None \<Rightarrow> None | Some m \<Rightarrow> m name)"

text \<open>The elements of a slice, nil or not (what \<^verbatim>\<open>range\<close> and \<^verbatim>\<open>append\<close> see).\<close>

definition elems :: "'a list option \<Rightarrow> 'a list" where
  "elems sl = (case sl of None \<Rightarrow> [] | Some xs \<Rightarrow> xs)"

datatype panic = SliceBoundsOutOfRange

text \<open>
  Lines 178 to 181 of pollAll:
  \<^verbatim>\<open>h := append(s.history[n.Name], samp)\<close>,
  \<^verbatim>\<open>if len(h) > limit { h = h[len(h)-limit:] }\<close>.
  The slice expression panics when its low bound is not within \<open>0..len(h)\<close>. The branch is
  taken only when \<open>len(h) > limit\<close>, so the low bound is positive, and it exceeds
  \<open>len(h)\<close> exactly when the limit is negative (a 64-bit wrap-around of the subtraction
  needs a negative limit too and gives a negative bound, which panics as well).
\<close>

definition append_capped :: "int \<Rightarrow> Sample list option \<Rightarrow> Sample \<Rightarrow> panic + Sample list" where
  "append_capped limit old samp =
     (let h = elems old @ [samp] in
      if int (length h) > limit then
        (if limit < 0 then Inl SliceBoundsOutOfRange
         else Inr (drop (nat (int (length h) - limit)) h))
      else Inr h)"

text \<open>
  Lines 176 to 183 of pollAll, for the node \<open>n\<close> and its sample: nil maps are replaced by
  empty ones, the capped history and the sample are stored under \<^verbatim>\<open>n.Name\<close>.
\<close>

definition commit :: "State \<Rightarrow> Node \<Rightarrow> Sample \<Rightarrow> panic + State" where
  "commit s n samp =
     (let hm = (case history s of None \<Rightarrow> Map.empty | Some m \<Rightarrow> m);
          lm = (case latest s of None \<Rightarrow> Map.empty | Some m \<Rightarrow> m)
      in case append_capped (HistoryLimit (Config s)) (hm (Name n)) samp of
           Inl e \<Rightarrow> Inl e
         | Inr h \<Rightarrow> Inr (s\<lparr>history := Some (hm(Name n \<mapsto> h)),
                           latest := Some (lm(Name n \<mapsto> samp))\<rparr>))"

text \<open>
  Any number of commits, in the order in which the goroutines take the lock. A panic
  ends the process, so the run stops there.
\<close>

fun commits :: "State \<Rightarrow> (Node \<times> Sample) list \<Rightarrow> panic + State" where
  "commits s [] = Inr s"
| "commits s (c # cs) =
     (case commit s (fst c) (snd c) of Inl e \<Rightarrow> Inl e | Inr s' \<Rightarrow> commits s' cs)"

text \<open>The most recent \<open>k\<close> entries of a sequence, in their order.\<close>

definition last_n :: "int \<Rightarrow> 'a list \<Rightarrow> 'a list" where
  "last_n k xs = drop (length xs - nat k) xs"

text \<open>The samples a run commits under one name, in commit order.\<close>

definition committed_for :: "string \<Rightarrow> (Node \<times> Sample) list \<Rightarrow> Sample list" where
  "committed_for name cs = map snd (filter (\<lambda>c. Name (fst c) = name) cs)"

section \<open>The probe (fetchOnce) and the goroutine body of pollAll\<close>

text \<open>
  What \<^verbatim>\<open>fetchOnce\<close> asks of the outside world, as functions of what it passes:
  \<^item> \<open>url_parse raw\<close>: \<^verbatim>\<open>url.Parse(raw)\<close>, the error text or the \<^verbatim>\<open>Host\<close> of the parsed URL;
  \<^item> \<open>tcp_dial hostPort\<close>: \<^verbatim>\<open>DialContext(ctx, "tcp", hostPort)\<close>, the error text, or \<open>None\<close>
    when the connection was made;
  \<^item> \<open>http_get url\<close>: \<^verbatim>\<open>client.Do\<close> of a GET request to \<open>url\<close>, the error text, or the
    status code and the body of the response (a response with a status other than 200 is
    no error of \<^verbatim>\<open>client.Do\<close>);
  \<^item> \<open>json_decode body\<close>: the JSON decoder on the body, the error text or the payload;
  \<^item> \<open>since_ms\<close>: \<^verbatim>\<open>time.Since(start).Milliseconds()\<close> at the end of a successful probe.
  A Go \<^verbatim>\<open>error\<close> is modelled by its text (\<^verbatim>\<open>err.Error()\<close>).
\<close>

record ProbeEnv =
  url_parse :: "string \<Rightarrow> string + string"
  tcp_dial :: "string \<Rightarrow> string option"
  http_get :: "string \<Rightarrow> string + nat \<times> string"
  json_decode :: "string \<Rightarrow> string + AgentMetrics"
  since_ms :: int

datatype net_action = TcpDial string | HttpGet string

text \<open>
  \<^verbatim>\<open>fetchOnce\<close> returns the triple \<^verbatim>\<open>(AgentMetrics, int64, error)\<close>, the error being
  \<open>None\<close> for nil; the model also returns the network actions the probe made, in order.
  The source never reads \<^verbatim>\<open>resp.StatusCode\<close>: only the body of the response (\<open>snd resp\<close>)
  goes to the decoder. The error of \<^verbatim>\<open>http.NewRequestWithContext\<close> is dropped by the
  source; the URL it builds has been parsed before.
\<close>

definition fetchOnce :: "ProbeEnv \<Rightarrow> Node \<Rightarrow> (AgentMetrics \<times> int \<times> string option) \<times> net_action list" where
  "fetchOnce env n =
     (case url_parse env (URL n) of
        Inl err \<Rightarrow> ((zeroAgentMetrics, 0, Some err), [])
      | Inr host \<Rightarrow>
          (let hostPort = (if CHR '':'' \<notin> set host then host @ '':80'' else host) in
           case tcp_dial env hostPort of
             Some err \<Rightarrow> ((zeroAgentMetrics, 0, Some err), [TcpDial hostPort])
           | None \<Rightarrow>
               (case http_get env (URL n @ ''/metrics'') of
                  Inl err \<Rightarrow>
                    ((zeroAgentMetrics, 0, Some err),
                     [TcpDial hostPort, HttpGet (URL n @ ''/metrics'')])
                | Inr resp \<Rightarrow>
                    (case json_decode env (snd resp) of
                       Inl err \<Rightarrow>
                         ((zeroAgentMetrics, 0, Some err),
                          [TcpDial hostPort, HttpGet (URL n @ ''/metrics'')])
                     | Inr am \<Rightarrow>
                         ((am, since_ms env, None),
                          [TcpDial hostPort, HttpGet (URL n @ ''/metrics'')])))))"

definition probe_error :: "ProbeEnv \<Rightarrow> Node \<Rightarrow> string option" where
  "probe_error env n = snd (snd (fst (fetchOnce env n)))"

definition probe_actions :: "ProbeEnv \<Rightarrow> Node \<Rightarrow> net_action list" where
  "probe_actions env n = snd (fetchOnce env n)"

text \<open>Lines 167 to 175 of pollAll: the sample built from the probe's result.\<close>

definition mkSample :: "Node \<Rightarrow> AgentMetrics \<times> int \<times> string option \<Rightarrow> Instant \<Rightarrow> Sample" where
  "mkSample n r now =
     (case r of (am, lat, err) \<Rightarrow>
        (let samp = \<lparr>Time = now, Agent = am, LatencyMs = lat, Error = [], Node = n\<rparr>
         in case err of None \<Rightarrow> samp | Some e \<Rightarrow> samp\<lparr>Error := e\<rparr>))"

text \<open>
  The body of the goroutine that pollAll starts for the node \<open>n\<close> (lines 161 to 183):
  probe, then build the sample and commit it under the lock. \<open>now\<close> is \<^verbatim>\<open>time.Now()\<close>
  at line 168.
\<close>

definition pollNode :: "ProbeEnv \<Rightarrow> Instant \<Rightarrow> State \<Rightarrow> Node \<Rightarrow> panic + State" where
  "pollNode env now s n = commit s n (mkSample n (fst (fetchOnce env n)) now)"

text \<open>
  One round. The goroutines commit one at a time under the lock, in an order the
  scheduler chooses: \<open>order\<close> lists the nodes in that order (a permutation of the
  configured nodes), each with the world it probes and its commit time.
\<close>

fun pollAll :: "State \<Rightarrow> (Node \<times> ProbeEnv \<times> Instant) list \<Rightarrow> panic + State" where
  "pollAll s [] = Inr s"
| "pollAll s ((n, env, now) # order) =
     (case pollNode env now s n of Inl e \<Rightarrow> Inl e | Inr s' \<Rightarrow> pollAll s' order)"

text \<open>
  The stage at which a probe fails, read off the outside world alone: URL parse, TCP
  dial, HTTP fetch, body decode, in the order in which \<^verbatim>\<open>fetchOnce\<close> reaches them. A
  stage fails when its call returns an error; the status code of the response is no
  stage.
\<close>

datatype stage = UrlParse | TcpConnect | HttpFetch | BodyDecode

definition failed_stage :: "ProbeEnv \<Rightarrow> Node \<Rightarrow> stage option" where
  "failed_stage env n =
     (case url_parse env (URL n) of
        Inl _ \<Rightarrow> Some UrlParse
      | Inr host \<Rightarrow>
          (case tcp_dial env (if CHR '':'' \<in> set host then host else host @ '':80'') of
             Some _ \<Rightarrow> Some TcpConnect
           | None \<Rightarrow>
               (case http_get env (URL n @ ''/metrics'') of
                  Inl _ \<Rightarrow> Some HttpFetch
                | Inr resp \<Rightarrow>
                    (case json_decode env (snd resp) of
                       Inl _ \<Rightarrow> Some BodyDecode
                     | Inr _ \<Rightarrow> None))))"

text \<open>
  Every error of the libraries involved (\<^verbatim>\<open>net/url\<close>, \<^verbatim>\<open>net\<close>, \<^verbatim>\<open>net/http\<close>,
  \<^verbatim>\<open>encoding/json\<close>) has a text that is not empty.
\<close>

definition error_texts_nonempty :: "ProbeEnv \<Rightarrow> bool" where
  "error_texts_nonempty env \<longleftrightarrow>
     (\<forall>raw. url_parse env raw \<noteq> Inl []) \<and> (\<forall>hp. tcp_dial env hp \<noteq> Some []) \<and>
     (\<forall>u. http_get env u \<noteq> Inl []) \<and> (\<forall>b. json_decode env b \<noteq> Inl [])"

text \<open>The same world, but with every response carrying the status code \<open>code\<close>.\<close>

definition with_status :: "nat \<Rightarrow> ProbeEnv \<Rightarrow> ProbeEnv" where
  "with_status code env =
     env\<lparr>http_get := (\<lambda>u. case http_get env u of Inl err \<Rightarrow> Inl err
                                | Inr resp \<Rightarrow> Inr (code, snd resp))\<rparr>"

section \<open>The query handlers\<close>

text \<open>
  A response body written by \<^verbatim>\<open>json.NewEncoder(w).Encode(v)\<close>, down to the samples: a nil
  slice and a nil map are encoded as \<^verbatim>\<open>null\<close>, a slice as an array of its elements, a map
  as an object keyed by node name. No handler sets a status, so every response is 200.
\<close>

datatype json_body = JsonNull | JsonArray "Sample list" | JsonObject "string \<rightharpoonup> Sample list"

record HttpResponse =
  resp_status :: nat
  resp_body :: json_body

definition encode_slice :: "Sample list option \<Rightarrow> json_body" where
  "encode_slice sl = (case sl of None \<Rightarrow> JsonNull | Some xs \<Rightarrow> JsonArray xs)"

definition encode_map :: "(string \<rightharpoonup> Sample list) option \<Rightarrow> json_body" where
  "encode_map m = (case m of None \<Rightarrow> JsonNull | Some f \<Rightarrow> JsonObject f)"

text \<open>\<open>name\<close> is \<^verbatim>\<open>r.URL.Query().Get("node")\<close>: empty when the parameter is omitted.\<close>

definition handleHistory :: "State \<Rightarrow> string \<Rightarrow> HttpResponse" where
  "handleHistory s name =
     (if name \<noteq> [] then \<lparr>resp_status = 200, resp_body = encode_slice (history_at s name)\<rparr>
      else \<lparr>resp_status = 200, resp_body = encode_map (history s)\<rparr>)"

definition handleExportJSON :: "State \<Rightarrow> HttpResponse" where
  "handleExportJSON s = \<lparr>resp_status = 200, resp_body = encode_map (history s)\<rparr>"

section \<open>Formatting, as the CSV export uses it\<close>

text \<open>
  \<^verbatim>\<open>fmt.Sprint\<close> of an integer is its decimal numeral, with a minus sign when negative.
\<close>

definition digit_char :: "nat \<Rightarrow> char" where
  "digit_char d = ''0123456789'' ! d"

fun show_nat :: "nat \<Rightarrow> string" where
  "show_nat n = (if n < 10 then [digit_char n] else show_nat (n div 10) @ [digit_char (n mod 10)])"

declare show_nat.simps [simp del]

definition Sprint_int64 :: "int \<Rightarrow> string" where
  "Sprint_int64 i = (if i < 0 then CHR ''-'' # show_nat (nat (- i)) else show_nat (nat i))"

definition Sprint_uint64 :: "uint64 \<Rightarrow> string" where
  "Sprint_uint64 w = show_nat (unat w)"

text \<open>A numeral padded with zeros on the left to a width.\<close>

definition pad_left :: "nat \<Rightarrow> string \<Rightarrow> string" where
  "pad_left w s = replicate (w - length s) CHR ''0'' @ s"

text \<open>
  \<^verbatim>\<open>fmt.Sprintf("%.Nf", x)\<close>: the exact value of the float rounded to \<open>N\<close> decimals, a tie
  going to the even neighbour; the sign is printed for every negative value, also when the
  digits are all zero; with \<open>N = 0\<close> there is no decimal point. A rational has no
  negative zero: for the float \<^verbatim>\<open>-0.0\<close> the source prints a sign (\<^verbatim>\<open>-0.00\<close>) that this
  function does not; the number printed is the same.
\<close>

definition round_half_even :: "rat \<Rightarrow> int" where
  "round_half_even q =
     (let f = \<lfloor>q\<rfloor>; r = q - of_int f
      in if r < 1 / 2 then f else if 1 / 2 < r then f + 1 else if even f then f else f + 1)"

definition Sprintf_fixed :: "nat \<Rightarrow> float64 \<Rightarrow> string" where
  "Sprintf_fixed prec x =
     (let m = nat (round_half_even (\<bar>x\<bar> * 10 ^ prec))
      in (if x < 0 then ''-'' else []) @ show_nat (m div 10 ^ prec) @
         (if prec = 0 then [] else CHR ''.'' # pad_left prec (show_nat (m mod 10 ^ prec))))"

text \<open>
  \<^verbatim>\<open>t.UTC().Format(time.RFC3339)\<close>: the layout \<^verbatim>\<open>2006-01-02T15:04:05Z07:00\<close> has no
  fraction of a second, and the zone of a UTC time is printed as \<^verbatim>\<open>Z\<close>.
\<close>

definition format_RFC3339 :: "Instant \<Rightarrow> string" where
  "format_RFC3339 t =
     pad_left 4 (show_nat (year t)) @ ''-'' @ pad_left 2 (show_nat (month t)) @ ''-'' @
     pad_left 2 (show_nat (day t)) @ ''T'' @ pad_left 2 (show_nat (hour t)) @ '':'' @
     pad_left 2 (show_nat (minute t)) @ '':'' @ pad_left 2 (show_nat (second t)) @ ''Z''"

section \<open>The CSV export (handleExportCSV)\<close>

text \<open>
  The export as the list of records handed to \<^verbatim>\<open>csv.Writer.Write\<close> (whose errors the
  handler drops): the header, then for every configured node, in order, one record for
  every sample of \<^verbatim>\<open>s.history[n.Name]\<close>. The two loops are the two functions below, the
  last argument being what has been written so far.
\<close>

definition csv_header :: "string list" where
  "csv_header = [''time'', ''node'', ''group'', ''latency_ms'', ''cpu_pct'', ''mem_pct'',
                 ''tx_bps'', ''rx_bps'', ''uptime_sec'']"

definition csv_row :: "Node \<Rightarrow> Sample \<Rightarrow> string list" where
  "csv_row n samp =
     [format_RFC3339 (Time samp), Name n, Group n, Sprint_int64 (LatencyMs samp),
      Sprintf_fixed 2 (CPUPercent (Agent samp)), Sprintf_fixed 2 (MemPercent (Agent samp)),
      Sprintf_fixed 0 (TxBytesPerSec (Net (Agent samp))),
      Sprintf_fixed 0 (RxBytesPerSec (Net (Agent samp))),
      Sprint_uint64 (UptimeSec (Agent samp))]"

fun write_samples :: "Node \<Rightarrow> Sample list \<Rightarrow> string list list \<Rightarrow> string list list" where
  "write_samples n [] out = out"
| "write_samples n (samp # rest) out = write_samples n rest (out @ [csv_row n samp])"

fun write_nodes :: "State \<Rightarrow> Node list \<Rightarrow> string list list \<Rightarrow> string list list" where
  "write_nodes s [] out = out"
| "write_nodes s (n # ns) out =
     write_nodes s ns (write_samples n (elems (history_at s (Name n))) out)"

definition handleExportCSV :: "State \<Rightarrow> string list list" where
  "handleExportCSV s = write_nodes s (Nodes (Config s)) [csv_header]"

section \<open>Reading the exports back\<close>

text \<open>
  The repository has no reader for its exports. These are the readers the round trip
  speaks of: decimal numerals, an optional sign, an optional fraction after a point,
  and the fields of an RFC 3339 time by position. The body of the JSON export is read
  back as the mapping it holds.
\<close>

definition digit_val :: "char \<Rightarrow> nat" where
  "digit_val c = of_char c - 48"

fun decode_digits :: "nat \<Rightarrow> string \<Rightarrow> nat" where
  "decode_digits acc [] = acc"
| "decode_digits acc (c # cs) = decode_digits (10 * acc + digit_val c) cs"

definition decode_nat :: "string \<Rightarrow> nat" where
  "decode_nat s = decode_digits 0 s"

definition decode_int :: "string \<Rightarrow> int" where
  "decode_int s = (if s \<noteq> [] \<and> hd s = CHR ''-'' then - int (decode_nat (tl s)) else int (decode_nat s))"

definition decode_fixed :: "string \<Rightarrow> rat" where
  "decode_fixed s =
     (let neg = (s \<noteq> [] \<and> hd s = CHR ''-'');
          digits = (if neg then tl s else s);
          ip = takeWhile (\<lambda>c. c \<noteq> CHR ''.'') digits;
          fp = drop 1 (dropWhile (\<lambda>c. c \<noteq> CHR ''.'') digits);
          v = of_nat (decode_nat (ip @ fp)) / 10 ^ length fp
      in if neg then - v else v)"

definition decode_RFC3339 :: "string \<Rightarrow> Instant" where
  "decode_RFC3339 s =
     \<lparr>year = decode_nat (take 4 s), month = decode_nat (take 2 (drop 5 s)),
      day = decode_nat (take 2 (drop 8 s)), hour = decode_nat (take 2 (drop 11 s)),
      minute = decode_nat (take 2 (drop 14 s)), second = decode_nat (take 2 (drop 17 s)),
      nsec = 0\<rparr>"

definition decode_json_body :: "json_body \<Rightarrow> (string \<rightharpoonup> Sample list) option" where
  "decode_json_body b = (case b of JsonObject m \<Rightarrow> Some m | _ \<Rightarrow> None)"

text \<open>
  An instant as \<^verbatim>\<open>time.Now()\<close> gives it: a year of four digits, and date and clock fields
  in range.
\<close>

definition valid_instant :: "Instant \<Rightarrow> bool" where
  "valid_instant t \<longleftrightarrow>
     year t \<le> 9999 \<and> 1 \<le> month t \<and> month t \<le> 12 \<and> 1 \<le> day t \<and> day t \<le> 31 \<and>
     hour t < 24 \<and> minute t < 60 \<and> second t < 60 \<and> nsec t < 10 ^ 9"

text \<open>The shape of an RFC 3339 date-time in UTC, \<^verbatim>\<open>YYYY-MM-DDThh:mm:ssZ\<close>.\<close>

definition is_digit :: "char \<Rightarrow> bool" where
  "is_digit c \<longleftrightarrow> c \<in> set ''0123456789''"

definition is_rfc3339_utc :: "string \<Rightarrow> bool" where
  "is_rfc3339_utc s \<longleftrightarrow>
     length s = 20 \<and> list_all is_digit (take 4 s) \<and> s ! 4 = CHR ''-'' \<and>
     list_all is_digit (take 2 (drop 5 s)) \<and> s ! 7 = CHR ''-'' \<and>
     list_all is_digit (take 2 (drop 8 s)) \<and> s ! 10 = CHR ''T'' \<and>
     list_all is_digit (take 2 (drop 11 s)) \<and> s ! 13 = CHR '':'' \<and>
     list_all is_digit (take 2 (drop 14 s)) \<and> s ! 16 = CHR '':'' \<and>
     list_all is_digit (take 2 (drop 17 s)) \<and> s ! 19 = CHR ''Z''"

section \<open>The agent's network rate (agent/main.go, computeNet)\<close>

text \<open>
  The package-level variables \<^verbatim>\<open>lastTx\<close>, \<^verbatim>\<open>lastRx\<close> and \<^verbatim>\<open>lastTime\<close>. A time is a
  count of nanoseconds, the zero \<^verbatim>\<open>time.Time\<close> being 0 (\<^verbatim>\<open>IsZero\<close>).
\<close>

record NetGlobals =
  lastTx :: uint64
  lastRx :: uint64
  lastTime :: int

text \<open>One \<^verbatim>\<open>time.Now()\<close> with the \<^verbatim>\<open>sampleNet()\<close> that follows it.\<close>

record Reading =
  r_now :: int
  r_tx :: uint64
  r_rx :: uint64

definition zeroGlobals :: NetGlobals where
  "zeroGlobals = \<lparr>lastTx = 0, lastRx = 0, lastTime = 0\<rparr>"

text \<open>
  \<^verbatim>\<open>t.Sub(u)\<close> is a \<^verbatim>\<open>Duration\<close>, an \<^verbatim>\<open>int64\<close> of nanoseconds that saturates.
  \<^verbatim>\<open>d.Seconds()\<close> is \<^verbatim>\<open>float64(d / Second) + float64(d % Second) / 1e9\<close>, with Go's
  division that truncates towards zero.
  Floating point: the result of every \<^verbatim>\<open>float64\<close> operation is the exact result rounded
  by \<open>rd\<close>, a function the model takes as a parameter.
\<close>

definition time_Sub :: "int \<Rightarrow> int \<Rightarrow> int" where
  "time_Sub t u = max (- (2 ^ 63)) (min (2 ^ 63 - 1) (t - u))"

definition trunc_div :: "int \<Rightarrow> int \<Rightarrow> int" where
  "trunc_div a b = (if (a < 0) = (b < 0) then \<bar>a\<bar> div \<bar>b\<bar> else - (\<bar>a\<bar> div \<bar>b\<bar>))"

definition trunc_rem :: "int \<Rightarrow> int \<Rightarrow> int" where
  "trunc_rem a b = a - b * trunc_div a b"

definition Seconds :: "(rat \<Rightarrow> rat) \<Rightarrow> int \<Rightarrow> rat" where
  "Seconds rd d =
     (let sec = trunc_div d 1000000000; nsec = trunc_rem d 1000000000
      in rd (rd (of_int sec) + rd (rd (of_int nsec) / 1000000000)))"

text \<open>
  \<^verbatim>\<open>computeNet\<close>, under its mutex. \<open>first\<close> is the reading taken on entry, \<open>again\<close> the
  one taken after the 200 ms sleep, which is used only when the last sample is less than
  half a second old. The subtraction of the counters is the \<^verbatim>\<open>uint64\<close> one, which wraps.
  The parameter \<^verbatim>\<open>window\<close> of the source is not used by it and is left out.
\<close>

definition computeNet :: "(rat \<Rightarrow> rat) \<Rightarrow> NetGlobals \<Rightarrow> Reading \<Rightarrow> Reading \<Rightarrow> NetStat \<times> NetGlobals" where
  "computeNet rd g first again =
     (if lastTime g = 0 then
        (\<lparr>TxBytesPerSec = 0, RxBytesPerSec = 0\<rparr>,
         \<lparr>lastTx = r_tx first, lastRx = r_rx first, lastTime = r_now first\<rparr>)
      else
        (let elapsed1 = Seconds rd (time_Sub (r_now first) (lastTime g));
             r = (if elapsed1 < 1 / 2 then again else first);
             elapsed2 = (if elapsed1 < 1 / 2 then Seconds rd (time_Sub (r_now r) (lastTime g))
                         else elapsed1);
             elapsed = (if elapsed2 \<le> 0 then 1 else elapsed2);
             dTx = rd (of_nat (unat (r_tx r - lastTx g)));
             dRx = rd (of_nat (unat (r_rx r - lastRx g)))
         in (\<lparr>TxBytesPerSec = rd (dTx / elapsed), RxBytesPerSec = rd (dRx / elapsed)\<rparr>,
             \<lparr>lastTx = r_tx r, lastRx = r_rx r, lastTime = r_now r\<rparr>)))"

text \<open>The rates reported by a sequence of requests to \<^verbatim>\<open>/metrics\<close>.\<close>

fun metrics_requests :: "(rat \<Rightarrow> rat) \<Rightarrow> NetGlobals \<Rightarrow> (Reading \<times> Reading) list \<Rightarrow> NetStat list" where
  "metrics_requests rd g [] = []"
| "metrics_requests rd g ((first, again) # rest) =
     (case computeNet rd g first again of (ns, g') \<Rightarrow> ns # metrics_requests rd g' rest)"

section \<open>The commit step over an explicit store\<close>

text \<open>
  The maps of \<^verbatim>\<open>State\<close> hold \<^verbatim>\<open>Sample\<close> values, not pointers, so storing a sample copies
  it. To speak of which stored sample is which, every place that holds a \<^verbatim>\<open>Sample\<close> gets an
  address: the elements of a history slice (\<open>history_slots\<close>) and the value slot the map
  \<^verbatim>\<open>latest\<close> keeps for a key (\<open>latest_slot\<close>); \<open>cells\<close> is what each place holds.
  \<^verbatim>\<open>append\<close> copies the sample into the next element of the slice, a place not used
  before; \<^verbatim>\<open>s.latest[n.Name] = samp\<close> copies it into the slot of the key, a new one when
  the key is new. The elements already in a slice keep their places (a reallocation of
  the backing array, which would move them, is not modelled).
\<close>

type_synonym addr = nat

record Store =
  cells :: "addr \<rightharpoonup> Sample"
  next_free :: addr
  history_slots :: "string \<rightharpoonup> addr list"
  latest_slot :: "string \<rightharpoonup> addr"

definition emptyStore :: Store where
  "emptyStore = \<lparr>cells = Map.empty, next_free = 0, history_slots = Map.empty,
                  latest_slot = Map.empty\<rparr>"

definition store_commit :: "int \<Rightarrow> Store \<Rightarrow> Node \<Rightarrow> Sample \<Rightarrow> panic + Store" where
  "store_commit limit st n samp =
     (let a = next_free st;
          h = elems (history_slots st (Name n)) @ [a]
      in if int (length h) > limit \<and> limit < 0 then Inl SliceBoundsOutOfRange
         else
           (let h' = (if int (length h) > limit then drop (nat (int (length h) - limit)) h
                      else h);
                b = (case latest_slot st (Name n) of None \<Rightarrow> a + 1 | Some b \<Rightarrow> b)
            in Inr \<lparr>cells = (cells st)(a \<mapsto> samp, b \<mapsto> samp),
                    next_free = a + 2,
                    history_slots = (history_slots st)(Name n \<mapsto> h'),
                    latest_slot = (latest_slot st)(Name n \<mapsto> b)\<rparr>))"

text \<open>What the store holds under a name, read through the slots.\<close>

definition store_history :: "Store \<Rightarrow> string \<Rightarrow> Sample option list option" where
  "store_history st k = map_option (map (cells st)) (history_slots st k)"

definition store_latest :: "Store \<Rightarrow> string \<Rightarrow> Sample option" where
  "store_latest st k = (case latest_slot st k of None \<Rightarrow> None | Some b \<Rightarrow> cells st b)"

definition store_ok :: "Store \<Rightarrow> bool" where
  "store_ok st \<longleftrightarrow>
     (\<forall>k as a. history_slots st k = Some as \<and> a \<in> set as \<longrightarrow> a < next_free st) \<and>
     (\<forall>k b. latest_slot st k = Some b \<longrightarrow> b < next_free st) \<and>
     (\<forall>k k' as b. history_slots st k = Some as \<and> latest_slot st k' = Some b \<longrightarrow> b \<notin> set as) \<and>
     (\<forall>k k' b. latest_slot st k = Some b \<and> latest_slot st k' = Some b \<longrightarrow> k = k')"

definition views :: "Store \<Rightarrow> State \<Rightarrow> bool" where
  "views st s \<longleftrightarrow>
     (\<forall>k. store_history st k = map_option (map Some) (history_at s k)) \<and>
     (\<forall>k. store_latest st k = latest_at s k)"

section \<open>Example data\<close>

definition exInstant :: "nat \<Rightarrow> Instant" where
  "exInstant k = \<lparr>year = 2024, month = 5, day = 17, hour = 9, minute = 30, second = k, nsec = 0\<rparr>"

definition exNodeA :: Node where
  "exNodeA = \<lparr>Name = ''alpha'', URL = ''http://10.0.0.5:9876'', Group = ''lab'', Alerts = None\<rparr>"

definition exNodeB :: Node where
  "exNodeB = \<lparr>Name = ''beta'', URL = ''http://10.0.0.6:9876'', Group = ''lab'', Alerts = None\<rparr>"

definition exConfig :: Config where
  "exConfig = \<lparr>ListenAddr = ''0.0.0.0:8080'', RefreshSeconds = 2, HistoryLimit = 3,
                Nodes = [exNodeA, exNodeB]\<rparr>"

definition exMetrics :: AgentMetrics where
  "exMetrics = \<lparr>Hostname = ''alpha'', TimestampISO = ''2024-05-17T09:30:00Z'',
                 CPUPercent = 25 / 2, MemPercent = 40, UptimeSec = 3600, Disks = Some [],
                 Net = \<lparr>TxBytesPerSec = 1000, RxBytesPerSec = 2000\<rparr>\<rparr>"

definition exSample :: "Node \<Rightarrow> nat \<Rightarrow> Sample" where
  "exSample n k = \<lparr>Time = exInstant k, Agent = exMetrics, LatencyMs = 7, Error = [], Node = n\<rparr>"

definition exZeroLimit :: Config where
  "exZeroLimit = exConfig\<lparr>HistoryLimit := 0\<rparr>"

definition exEmptySample :: Sample where
  "exEmptySample = \<lparr>Time = exInstant 1, Agent = zeroAgentMetrics, LatencyMs = 7, Error = [],
                     Node = exNodeA\<rparr>"

text \<open>
  A node that answers, one that refuses the connection, one that answers 200 with the
  body \<^verbatim>\<open>{}\<close>.
\<close>

definition exParse :: "string \<Rightarrow> string + string" where
  "exParse raw =
     (if raw = ''http://10.0.0.5:9876'' then Inr ''10.0.0.5:9876''
      else if raw = ''http://10.0.0.6:9876'' then Inr ''10.0.0.6:9876''
      else if raw = ''http://[::1]'' then Inr ''[::1]''
      else Inl (''parse '' @ raw @ '': not a URL of these examples''))"

definition exEnvOk :: ProbeEnv where
  "exEnvOk = \<lparr>url_parse = exParse, tcp_dial = (\<lambda>hp. None),
               http_get = (\<lambda>u. Inr (200, ''<metrics document>'')),
               json_decode = (\<lambda>b. Inr exMetrics), since_ms = 7\<rparr>"

definition exEnvRefused :: ProbeEnv where
  "exEnvRefused = exEnvOk\<lparr>tcp_dial :=
     (\<lambda>hp. Some (''dial tcp '' @ hp @ '': connect: connection refused''))\<rparr>"

definition exEnvEmptyObject :: ProbeEnv where
  "exEnvEmptyObject = exEnvOk\<lparr>http_get := (\<lambda>u. Inr (200, ''{}'')),
     json_decode := (\<lambda>b. if b = ''{}'' then Inr zeroAgentMetrics else Inr exMetrics)\<rparr>"

text \<open>A node that answers with status 500 and the body \<^verbatim>\<open>{}\<close>.\<close>

definition exEnvStatus500 :: ProbeEnv where
  "exEnvStatus500 = with_status 500 exEnvEmptyObject"

text \<open>
  A node configured by an IPv6 literal without a port. \<^verbatim>\<open>url.Parse\<close> keeps the brackets in
  \<^verbatim>\<open>Host\<close>, and the dialer refuses an address without a port.
\<close>

definition exNodeV6 :: Node where
  "exNodeV6 = \<lparr>Name = ''gamma'', URL = ''http://[::1]'', Group = ''lab'', Alerts = None\<rparr>"

definition exEnvV6 :: ProbeEnv where
  "exEnvV6 = exEnvOk\<lparr>tcp_dial :=
     (\<lambda>hp. if hp = ''[::1]:80'' then None
           else Some (''dial tcp: address '' @ hp @ '': missing port in address''))\<rparr>"

text \<open>
  Two samples that differ in the nanosecond of their time and in the fraction of their
  transmit rate, each the whole history of a store.
\<close>

definition exSampleFine :: Sample where
  "exSampleFine =
     \<lparr>Time = (exInstant 5)\<lparr>nsec := 123456789\<rparr>,
      Agent = exMetrics\<lparr>Net := \<lparr>TxBytesPerSec = 4001 / 4, RxBytesPerSec = 2000\<rparr>\<rparr>,
      LatencyMs = 7, Error = [], Node = exNodeA\<rparr>"

definition exStateFine :: State where
  "exStateFine = \<lparr>Config = exConfig, history = Some [''alpha'' \<mapsto> [exSampleFine]],
                   latest = Some [''alpha'' \<mapsto> exSampleFine]\<rparr>"

definition exStateCoarse :: State where
  "exStateCoarse = \<lparr>Config = exConfig, history = Some [''alpha'' \<mapsto> [exSample exNodeA 5]],
                     latest = Some [''alpha'' \<mapsto> exSample exNodeA 5]\<rparr>"

text \<open>
  Readings of the agent: a first request, one two seconds later, one after the
  transmit counter was reset, and one that comes too soon after the last.
\<close>

definition exReading :: "int \<Rightarrow> uint64 \<Rightarrow> uint64 \<Rightarrow> Reading" where
  "exReading ms t r = \<lparr>r_now = 63851765400000000000 + ms * 1000000, r_tx = t, r_rx = r\<rparr>"

definition exCalls :: "(Reading \<times> Reading) list" where
  "exCalls =
     [(exReading 0 1000 5000, exReading 200 1000 5000),
      (exReading 2000 3000 9000, exReading 2200 3000 9000),
      (exReading 4000 400 9000, exReading 4200 400 9000),
      (exReading 4100 500 9000, exReading 4300 700 9300)]"

section \<open>Lemmas about the commit step\<close>

lemma drop_last_n:
  assumes "0 \<le> limit" and "limit < int (length h)"
  shows "drop (nat (int (length h) - limit)) h = last_n limit h"
proof -
  have "nat (int (length h) - limit) = length h - nat limit"
    using assms by linarith
  then show ?thesis by (simp add: last_n_def)
qed

lemma last_n_short: "int (length xs) \<le> k \<Longrightarrow> last_n k xs = xs"
  by (simp add: last_n_def)

lemma append_capped_ok:
  assumes "0 \<le> limit"
  shows "append_capped limit old samp = Inr (last_n limit (elems old @ [samp]))"
proof (cases "limit < int (length (elems old @ [samp]))")
  case True
  then show ?thesis
    using assms drop_last_n [OF assms True] by (simp add: append_capped_def Let_def)
next
  case False
  then have "last_n limit (elems old @ [samp]) = elems old @ [samp]"
    by (intro last_n_short) simp
  with False show ?thesis
    by (simp add: append_capped_def Let_def)
qed

lemma append_capped_negative:
  "limit < 0 \<Longrightarrow> append_capped limit old samp = Inl SliceBoundsOutOfRange"
  by (simp add: append_capped_def Let_def)

lemma length_last_n: "0 \<le> k \<Longrightarrow> int (length (last_n k xs)) \<le> k"
  by (simp add: last_n_def)

lemma last_n_append_last_n: "last_n k (last_n k xs @ ys) = last_n k (xs @ ys)"
proof (cases "nat k \<le> length xs")
  case True
  then have "length xs + length ys - (length xs - nat k + nat k) + (length xs - nat k)
      = length xs + length ys - nat k"
    by linarith
  then show ?thesis by (simp add: last_n_def)
next
  case False
  then show ?thesis by (simp add: last_n_def)
qed

lemma commit_ok:
  assumes "0 \<le> HistoryLimit (Config s)"
  shows "\<exists>s'. commit s n samp = Inr s' \<and> Config s' = Config s \<and>
           history_at s' (Name n) =
             Some (last_n (HistoryLimit (Config s)) (elems (history_at s (Name n)) @ [samp])) \<and>
           latest_at s' (Name n) = Some samp \<and>
           (\<forall>name. name \<noteq> Name n \<longrightarrow>
              history_at s' name = history_at s name \<and> latest_at s' name = latest_at s name)"
  using assms
  by (cases "history s"; cases "latest s")
     (simp_all add: commit_def append_capped_ok history_at_def latest_at_def Let_def)

lemma committed_for_Cons:
  "committed_for name (c # cs) =
     (if Name (fst c) = name then snd c # committed_for name cs else committed_for name cs)"
  by (simp add: committed_for_def)

lemma commit_history_map:
  "commit s n samp = Inr s' \<Longrightarrow> history s' \<noteq> None"
  by (auto simp: commit_def Let_def split: sum.splits)

lemma commits_history_at:
  assumes "0 \<le> HistoryLimit (Config s)"
  shows "\<exists>s'. commits s cs = Inr s' \<and> Config s' = Config s \<and>
           (history s \<noteq> None \<longrightarrow> history s' \<noteq> None) \<and>
           (\<forall>name. history_at s' name =
              (if committed_for name cs = [] then history_at s name
               else Some (last_n (HistoryLimit (Config s))
                      (elems (history_at s name) @ committed_for name cs))))"
  using assms
proof (induction cs arbitrary: s)
  case Nil
  then show ?case by (simp add: committed_for_def)
next
  case (Cons c cs)
  obtain s1 where s1: "commit s (fst c) (snd c) = Inr s1" "Config s1 = Config s"
    "history_at s1 (Name (fst c)) =
       Some (last_n (HistoryLimit (Config s)) (elems (history_at s (Name (fst c))) @ [snd c]))"
    "\<forall>name. name \<noteq> Name (fst c) \<longrightarrow> history_at s1 name = history_at s name"
    using commit_ok [OF Cons.prems, of "fst c" "snd c"] by blast
  have "0 \<le> HistoryLimit (Config s1)"
    using Cons.prems s1(2) by simp
  from Cons.IH [OF this] obtain s' where s': "commits s1 cs = Inr s'" "Config s' = Config s1"
    "history s1 \<noteq> None \<longrightarrow> history s' \<noteq> None"
    "\<forall>name. history_at s' name =
       (if committed_for name cs = [] then history_at s1 name
        else Some (last_n (HistoryLimit (Config s1))
               (elems (history_at s1 name) @ committed_for name cs)))"
    by blast
  have "history_at s' name =
          (if committed_for name (c # cs) = [] then history_at s name
           else Some (last_n (HistoryLimit (Config s))
                  (elems (history_at s name) @ committed_for name (c # cs))))" for name
  proof (cases "Name (fst c) = name")
    case True
    then show ?thesis
      using s'(4) s1(2,3)
      by (simp add: committed_for_Cons elems_def last_n_append_last_n)
  next
    case False
    then show ?thesis
      using s'(4) s1(2,4) by (simp add: committed_for_Cons)
  qed
  moreover have "history s' \<noteq> None"
    using s'(3) commit_history_map [OF s1(1)] by simp
  ultimately show ?case
    using s1(1,2) s'(1,2) by simp
qed

lemma commits_from_init:
  assumes "commits (initState cfg) cs = Inr s"
  shows "Config s = cfg \<and> history s \<noteq> None \<and>
         (\<forall>name. history_at s name =
            (if committed_for name cs = [] then None
             else Some (last_n (HistoryLimit cfg) (committed_for name cs))))"
proof (cases "0 \<le> HistoryLimit cfg")
  case True
  then have "0 \<le> HistoryLimit (Config (initState cfg))"
    by (simp add: initState_def)
  from commits_history_at [OF this, of cs] assms
  show ?thesis
    by (auto simp: initState_def history_at_def elems_def)
next
  case False
  have "cs = []"
  proof (cases cs)
    case (Cons c cs')
    have "commit (initState cfg) (fst c) (snd c) = Inl SliceBoundsOutOfRange"
      using False by (simp add: commit_def initState_def append_capped_negative)
    with assms Cons show ?thesis by simp
  qed simp
  then show ?thesis
    using assms by (auto simp: history_at_def initState_def committed_for_def)
qed

text \<open>A round is a run of commits, one per node polled.\<close>

lemma pollAll_commits:
  "pollAll s order =
     commits s (map (\<lambda>(n, env, now). (n, mkSample n (fst (fetchOnce env n)) now)) order)"
  by (induction s order rule: pollAll.induct) (simp_all add: pollNode_def split: sum.splits)

text \<open>A configuration that \<^verbatim>\<open>loadConfig\<close> returns has a positive history limit.\<close>

lemma loadConfig_positive:
  assumes "loadConfig file = Inr c"
  shows "0 < HistoryLimit c \<and> 0 < RefreshSeconds c \<and> ListenAddr c \<noteq> []"
  using assms
  by (auto simp: loadConfig_def Let_def split: option.splits sum.splits if_splits)

section \<open>Claims about the store\<close>

text \<open>
  C1. For every node name and after any number of commits, the history stored under
  that name is never longer than the configured history limit, and it holds the most
  recent samples committed under that name, in their commit order: the oldest entries
  are the ones dropped. The run starts from a store whose histories are within the
  limit (the empty store of \<^verbatim>\<open>main\<close> is one) and with a limit that is not negative
  (\<^verbatim>\<open>loadConfig\<close> makes it positive).
\<close>

theorem history_bounded_fifo:
  assumes "0 \<le> HistoryLimit (Config s)"
    and "\<And>name. int (length (elems (history_at s name))) \<le> HistoryLimit (Config s)"
  shows "\<exists>s'. commits s cs = Inr s' \<and>
           (\<forall>name. int (length (elems (history_at s' name))) \<le> HistoryLimit (Config s) \<and>
                   elems (history_at s' name) =
                     last_n (HistoryLimit (Config s))
                       (elems (history_at s name) @ committed_for name cs))"
proof -
  obtain s' where s': "commits s cs = Inr s'"
    "\<forall>name. history_at s' name =
       (if committed_for name cs = [] then history_at s name
        else Some (last_n (HistoryLimit (Config s))
               (elems (history_at s name) @ committed_for name cs)))"
    using commits_history_at [OF assms(1), of cs] by blast
  have eq: "elems (history_at s' name) =
          last_n (HistoryLimit (Config s)) (elems (history_at s name) @ committed_for name cs)"
    for name
    using s'(2) assms(2) [of name] by (simp add: last_n_short elems_def)
  have "int (length (elems (history_at s' name))) \<le> HistoryLimit (Config s)" for name
    unfolding eq by (rule length_last_n [OF assms(1)])
  with eq s'(1) show ?thesis by blast
qed

theorem history_bounded_fifo_witness:
  "\<exists>s'. commits (initState exConfig)
          [(exNodeA, exSample exNodeA 1), (exNodeB, exSample exNodeB 1),
           (exNodeA, exSample exNodeA 2), (exNodeA, exSample exNodeA 3),
           (exNodeB, exSample exNodeB 2), (exNodeA, exSample exNodeA 4),
           (exNodeA, exSample exNodeA 5)] = Inr s' \<and>
        elems (history_at s' ''alpha'') =
          [exSample exNodeA 3, exSample exNodeA 4, exSample exNodeA 5] \<and>
        elems (history_at s' ''beta'') = [exSample exNodeB 1, exSample exNodeB 2] \<and>
        int (length (elems (history_at s' ''alpha''))) \<le> 3"
proof -
  let ?s = "initState exConfig"
  let ?cs = "[(exNodeA, exSample exNodeA 1), (exNodeB, exSample exNodeB 1),
           (exNodeA, exSample exNodeA 2), (exNodeA, exSample exNodeA 3),
           (exNodeB, exSample exNodeB 2), (exNodeA, exSample exNodeA 4),
           (exNodeA, exSample exNodeA 5)]"
  have lim: "HistoryLimit (Config ?s) = 3"
    by (simp add: initState_def exConfig_def)
  have empty: "elems (history_at ?s name) = []" for name
    by (simp add: initState_def history_at_def elems_def)
  have a1: "0 \<le> HistoryLimit (Config ?s)"
    by (simp add: lim)
  have a2: "int (length (elems (history_at ?s name))) \<le> HistoryLimit (Config ?s)" for name
    by (simp add: lim empty)
  obtain s' where s': "commits ?s ?cs = Inr s'"
    "\<forall>name. int (length (elems (history_at s' name))) \<le> HistoryLimit (Config ?s) \<and>
            elems (history_at s' name) =
              last_n (HistoryLimit (Config ?s))
                (elems (history_at ?s name) @ committed_for name ?cs)"
    using history_bounded_fifo [OF a1 a2, of ?cs] by blast
  have cA: "committed_for ''alpha'' ?cs =
      [exSample exNodeA 1, exSample exNodeA 2, exSample exNodeA 3, exSample exNodeA 4,
       exSample exNodeA 5]"
    by (simp add: committed_for_def exNodeA_def exNodeB_def)
  have cB: "committed_for ''beta'' ?cs = [exSample exNodeB 1, exSample exNodeB 2]"
    by (simp add: committed_for_def exNodeA_def exNodeB_def)
  have "elems (history_at s' ''alpha'') =
      last_n (HistoryLimit (Config ?s))
        (elems (history_at ?s ''alpha'') @ committed_for ''alpha'' ?cs)"
    using s'(2) by blast
  then have hA: "elems (history_at s' ''alpha'') =
      [exSample exNodeA 3, exSample exNodeA 4, exSample exNodeA 5]"
    unfolding lim empty cA by (simp add: last_n_def)
  have "elems (history_at s' ''beta'') =
      last_n (HistoryLimit (Config ?s))
        (elems (history_at ?s ''beta'') @ committed_for ''beta'' ?cs)"
    using s'(2) by blast
  then have hB: "elems (history_at s' ''beta'') = [exSample exNodeB 1, exSample exNodeB 2]"
    unfolding lim empty cB by (simp add: last_n_def)
  show ?thesis
    using s'(1) hA hB by (intro exI [of _ s']) simp
qed

text \<open>
  C5. Committing one node's sample, whether its probe succeeded or failed, leaves the
  history and the latest entry stored under every other node name as they were (nodes
  are told apart by their names, the keys of the store).
\<close>

theorem commit_frame:
  assumes "pollNode env now s a = Inr s'" and "Name b \<noteq> Name a"
  shows "history_at s' (Name b) = history_at s (Name b) \<and>
         latest_at s' (Name b) = latest_at s (Name b)"
  using assms
  by (cases "history s"; cases "latest s")
     (auto simp: pollNode_def commit_def history_at_def latest_at_def Let_def
           split: sum.splits)

theorem commit_frame_witness:
  "\<exists>s1 s2. pollNode exEnvOk (exInstant 1) (initState exConfig) exNodeB = Inr s1 \<and>
     pollNode exEnvRefused (exInstant 2) s1 exNodeA = Inr s2 \<and>
     history_at s2 ''beta'' = history_at s1 ''beta'' \<and>
     latest_at s2 ''beta'' = latest_at s1 ''beta'' \<and>
     latest_at s2 ''beta'' = Some (mkSample exNodeB (exMetrics, 7, None) (exInstant 1))"
proof -
  have lim: "0 \<le> HistoryLimit (Config (initState exConfig))"
    by (simp add: initState_def exConfig_def)
  obtain s1 where s1: "pollNode exEnvOk (exInstant 1) (initState exConfig) exNodeB = Inr s1"
    "Config s1 = Config (initState exConfig)"
    "latest_at s1 (Name exNodeB) = Some (mkSample exNodeB (fst (fetchOnce exEnvOk exNodeB)) (exInstant 1))"
    unfolding pollNode_def using commit_ok [OF lim] by blast
  have "0 \<le> HistoryLimit (Config s1)"
    using lim s1(2) by simp
  then obtain s2 where s2: "pollNode exEnvRefused (exInstant 2) s1 exNodeA = Inr s2"
    unfolding pollNode_def using commit_ok by blast
  have ne: "Name exNodeB \<noteq> Name exNodeA"
    by (simp add: exNodeA_def exNodeB_def)
  have nb: "Name exNodeB = ''beta''"
    by (simp add: exNodeB_def)
  have f: "fst (fetchOnce exEnvOk exNodeB) = (exMetrics, 7, None)"
    by (simp add: fetchOnce_def exEnvOk_def exParse_def exNodeB_def)
  show ?thesis
    using commit_frame [OF s2 ne] s1(1,3) s2 unfolding nb f
    by (intro exI [of _ s1] exI [of _ s2]) simp
qed

section \<open>The explicit store refines the commit step\<close>

text \<open>
  A store that is well formed (\<open>store_ok\<close>: the places in use are below \<open>next_free\<close>, no
  place is both an element of a history and a slot of \<^verbatim>\<open>latest\<close>, no two keys share a slot)
  stays so under a commit, and a commit on a store that shows a state gives a store that
  shows the state after the commit: read through the places, the explicit store is the
  store of values above.
\<close>

lemma store_commit_Inr:
  assumes "store_commit limit st n samp = Inr st'"
  shows "0 \<le> limit \<and>
     st' = \<lparr>cells = (cells st)(next_free st \<mapsto> samp,
                 (case latest_slot st (Name n) of None \<Rightarrow> next_free st + 1 | Some b \<Rightarrow> b) \<mapsto> samp),
            next_free = next_free st + 2,
            history_slots = (history_slots st)(Name n \<mapsto>
               last_n limit (elems (history_slots st (Name n)) @ [next_free st])),
            latest_slot = (latest_slot st)(Name n \<mapsto>
               (case latest_slot st (Name n) of None \<Rightarrow> next_free st + 1 | Some b \<Rightarrow> b))\<rparr>"
proof -
  have l: "0 \<le> limit"
    using assms by (auto simp: store_commit_def Let_def split: if_splits)
  have "(if limit < int (length (elems (history_slots st (Name n)) @ [next_free st]))
         then drop (nat (int (length (elems (history_slots st (Name n)) @ [next_free st])) - limit))
                (elems (history_slots st (Name n)) @ [next_free st])
         else elems (history_slots st (Name n)) @ [next_free st]) =
        last_n limit (elems (history_slots st (Name n)) @ [next_free st])"
    using drop_last_n [OF l, of "elems (history_slots st (Name n)) @ [next_free st]"]
      last_n_short [of "elems (history_slots st (Name n)) @ [next_free st]" limit]
    by (simp del: drop_append length_append)
  then show ?thesis
    using assms l by (simp add: store_commit_def Let_def del: drop_append length_append)
qed

lemma set_last_n: "set (last_n k xs) \<subseteq> set xs"
  by (simp add: last_n_def set_drop_subset)

lemma store_commit_ok:
  assumes "store_ok st" and "store_commit limit st n samp = Inr st'"
  shows "store_ok st'"
proof -
  note r = store_commit_Inr [OF assms(2)]
  let ?a = "next_free st"
  let ?b = "case latest_slot st (Name n) of None \<Rightarrow> ?a + 1 | Some b \<Rightarrow> b"
  let ?h = "last_n limit (elems (history_slots st (Name n)) @ [?a])"
  have old: "\<And>k as x. history_slots st k = Some as \<Longrightarrow> x \<in> set as \<Longrightarrow> x < ?a"
    and oldl: "\<And>k b. latest_slot st k = Some b \<Longrightarrow> b < ?a"
    and dis: "\<And>k k' as b. history_slots st k = Some as \<Longrightarrow> latest_slot st k' = Some b \<Longrightarrow> b \<notin> set as"
    and inj: "\<And>k k' b. latest_slot st k = Some b \<Longrightarrow> latest_slot st k' = Some b \<Longrightarrow> k = k'"
    using assms(1) unfolding store_ok_def by blast+
  have hsub: "set ?h \<subseteq> set (elems (history_slots st (Name n))) \<union> {?a}"
    using set_last_n [of limit "elems (history_slots st (Name n)) @ [?a]"] by auto
  have oldn: "x < ?a" if "x \<in> set (elems (history_slots st (Name n)))" for x
    using that old [of "Name n"]
    by (cases "history_slots st (Name n)") (auto simp: elems_def)
  have disn: "b \<notin> set (elems (history_slots st (Name n)))" if "latest_slot st k' = Some b" for k' b
    using that dis [of "Name n" _ k' b]
    by (cases "history_slots st (Name n)") (auto simp: elems_def)
  have hlt: "x < ?a + 2" if "x \<in> set ?h" for x
  proof -
    have "x \<in> set (elems (history_slots st (Name n))) \<or> x = ?a"
      using that hsub by blast
    then show ?thesis using oldn [of x] by auto
  qed
  have blt: "?b < ?a + 2" and bge: "?b = ?a + 1 \<or> latest_slot st (Name n) = Some ?b"
    using oldl [of "Name n"] by (auto split: option.splits)
  have bnh: "?b \<notin> set ?h"
  proof
    assume "?b \<in> set ?h"
    then have "?b \<in> set (elems (history_slots st (Name n))) \<or> ?b = ?a"
      using hsub by blast
    then show False
      using bge oldn [of ?b] disn [of "Name n" ?b] oldl [of "Name n" ?b] by auto
  qed
  have 1: "\<forall>k as x. history_slots st' k = Some as \<and> x \<in> set as \<longrightarrow> x < next_free st'"
    using r hlt old by (auto simp: less_SucI split: if_splits)
  have 2: "\<forall>k b. latest_slot st' k = Some b \<longrightarrow> b < next_free st'"
    using r blt oldl by (auto simp: less_SucI split: if_splits)
  have 3: "\<forall>k k' as b. history_slots st' k = Some as \<and> latest_slot st' k' = Some b \<longrightarrow> b \<notin> set as"
  proof (intro allI impI, elim conjE)
    fix k k' as b
    assume h: "history_slots st' k = Some as" and l: "latest_slot st' k' = Some b"
    show "b \<notin> set as"
    proof (cases "k = Name n")
      case True
      then have as: "as = ?h" using h r by simp
      show ?thesis
      proof (cases "k' = Name n")
        case True
        then show ?thesis using l r as bnh by simp
      next
        case False
        then have lb: "latest_slot st k' = Some b" using l r by simp
        show ?thesis
        proof
          assume "b \<in> set as"
          then have "b \<in> set (elems (history_slots st (Name n))) \<or> b = ?a"
            using as hsub by blast
          then show False
            using disn [OF lb] oldl [OF lb] by auto
        qed
      qed
    next
      case False
      then have ha: "history_slots st k = Some as" using h r by simp
      show ?thesis
      proof (cases "k' = Name n")
        case True
        then have "b = ?b" using l r by simp
        then show ?thesis
          using bge old [OF ha, of ?b] dis [OF ha, of "Name n" ?b] by auto
      next
        case False
        then show ?thesis using l r dis [OF ha] by simp
      qed
    qed
  qed
  have 4: "\<forall>k k' b. latest_slot st' k = Some b \<and> latest_slot st' k' = Some b \<longrightarrow> k = k'"
  proof (intro allI impI, elim conjE)
    fix k k' b
    assume l: "latest_slot st' k = Some b" and l': "latest_slot st' k' = Some b"
    show "k = k'"
    proof (rule ccontr)
      assume ne: "k \<noteq> k'"
      have cross: False
        if "latest_slot st' (Name n) = Some c" and "latest_slot st' j = Some c" and "j \<noteq> Name n"
        for c j
      proof -
        have c: "c = ?b" using that(1) r by simp
        have lj: "latest_slot st j = Some c" using that(2,3) r by simp
        have "c < ?a" using oldl [OF lj] .
        moreover have "latest_slot st (Name n) \<noteq> Some c"
          using inj [OF lj, of "Name n"] that(3) by blast
        ultimately show False
          using bge unfolding c [symmetric] by simp
      qed
      show False
      proof (cases "k = Name n")
        case True
        then show False using cross [of b k'] l l' ne by simp
      next
        case False
        show False
        proof (cases "k' = Name n")
          case True
          then show False using cross [of b k] l l' ne by simp
        next
          case k'n: False
          then show False using False l l' r inj [of k b k'] ne by simp
        qed
      qed
    qed
  qed
  show ?thesis
    unfolding store_ok_def using 1 2 3 4 by blast
qed


lemma map_last_n: "map f (last_n k xs) = last_n k (map f xs)"
  by (simp add: last_n_def drop_map)

lemma store_commit_views:
  assumes "store_ok st" and "views st s"
    and "store_commit (HistoryLimit (Config s)) st n samp = Inr st'"
  shows "\<exists>s'. commit s n samp = Inr s' \<and> views st' s'"
proof -
  let ?limit = "HistoryLimit (Config s)"
  note r = store_commit_Inr [OF assms(3)]
  let ?a = "next_free st"
  let ?b = "case latest_slot st (Name n) of None \<Rightarrow> ?a + 1 | Some b \<Rightarrow> b"
  let ?olds = "elems (history_slots st (Name n))"
  let ?cells = "(cells st)(?a \<mapsto> samp, ?b \<mapsto> samp)"
  have old: "\<And>k as x. history_slots st k = Some as \<Longrightarrow> x \<in> set as \<Longrightarrow> x < ?a"
    and oldl: "\<And>k b. latest_slot st k = Some b \<Longrightarrow> b < ?a"
    and dis: "\<And>k k' as b. history_slots st k = Some as \<Longrightarrow> latest_slot st k' = Some b \<Longrightarrow> b \<notin> set as"
    and inj: "\<And>k k' b. latest_slot st k = Some b \<Longrightarrow> latest_slot st k' = Some b \<Longrightarrow> k = k'"
    using assms(1) unfolding store_ok_def by blast+
  have vh: "\<And>k. store_history st k = map_option (map Some) (history_at s k)"
    and vl: "\<And>k. store_latest st k = latest_at s k"
    using assms(2) unfolding views_def by blast+
  obtain s' where s': "commit s n samp = Inr s'"
    "history_at s' (Name n) = Some (last_n ?limit (elems (history_at s (Name n)) @ [samp]))"
    "latest_at s' (Name n) = Some samp"
    "\<forall>name. name \<noteq> Name n \<longrightarrow>
        history_at s' name = history_at s name \<and> latest_at s' name = latest_at s name"
    using commit_ok [of s n samp] r by blast
  have bge: "?b = ?a + 1 \<or> latest_slot st (Name n) = Some ?b"
    by (auto split: option.splits)
  have keep_h: "?cells x = cells st x" if "history_slots st k = Some as" "x \<in> set as" for k as x
  proof -
    have "x \<noteq> ?a" using old [OF that] by simp
    moreover have "x \<noteq> ?b" using bge old [OF that] dis [OF that(1), of "Name n" ?b] that(2) by auto
    ultimately show ?thesis by simp
  qed
  have keep_l: "?cells c = cells st c" if "latest_slot st k = Some c" "k \<noteq> Name n" for k c
  proof -
    have "c \<noteq> ?a" using oldl [OF that(1)] by simp
    moreover have "c \<noteq> ?b" using bge oldl [OF that(1)] inj [OF that(1), of "Name n"] that(2) by auto
    ultimately show ?thesis by simp
  qed
  have olds: "map ?cells ?olds = map Some (elems (history_at s (Name n)))"
  proof (cases "history_slots st (Name n)")
    case None
    then show ?thesis using vh [of "Name n"] by (simp add: store_history_def elems_def)
  next
    case (Some as)
    have m: "map ?cells as = map (cells st) as"
      using keep_h [OF Some] by (intro map_cong) simp_all
    have oa: "?olds = as"
      using Some by (simp add: elems_def)
    have "map (cells st) as = map Some (elems (history_at s (Name n)))"
      using vh [of "Name n"] Some
      by (cases "history_at s (Name n)") (auto simp: store_history_def elems_def)
    then show ?thesis
      unfolding oa m .
  qed
  have anb: "?a \<noteq> ?b"
    using bge oldl [of "Name n" ?b] by auto
  have h: "store_history st' k = map_option (map Some) (history_at s' k)" for k
  proof (cases "k = Name n")
    case True
    have "map ?cells (?olds @ [?a]) = map Some (elems (history_at s (Name n)) @ [samp])"
      using olds by simp
    then have "map ?cells (last_n ?limit (?olds @ [?a])) =
        map Some (last_n ?limit (elems (history_at s (Name n)) @ [samp]))"
      by (simp only: map_last_n)
    then show ?thesis
      using True r s'(2) by (simp add: store_history_def)
  next
    case False
    show ?thesis
    proof (cases "history_slots st k")
      case None
      then show ?thesis using False r s'(4) vh [of k] by (simp add: store_history_def)
    next
      case (Some as)
      have m: "map ?cells as = map (cells st) as"
        using keep_h [OF Some] by (intro map_cong) simp_all
      have "store_history st' k = Some (map ?cells as)"
        using False r Some by (simp add: store_history_def)
      also have "\<dots> = store_history st k"
        unfolding m using Some by (simp add: store_history_def)
      also have "\<dots> = map_option (map Some) (history_at s' k)"
        using vh [of k] s'(4) False by simp
      finally show ?thesis .
    qed
  qed
  have l: "store_latest st' k = latest_at s' k" for k
  proof (cases "k = Name n")
    case True
    then show ?thesis using r s'(3) by (simp add: store_latest_def)
  next
    case False
    show ?thesis
    proof (cases "latest_slot st k")
      case None
      then show ?thesis using False r s'(4) vl [of k] by (simp add: store_latest_def)
    next
      case (Some c)
      then show ?thesis
        using False r s'(4) vl [of k] keep_l [OF Some False] by (simp add: store_latest_def)
    qed
  qed
  show ?thesis
    using s'(1) h l unfolding views_def by blast
qed

lemma emptyStore_views:
  shows "store_ok emptyStore" and "views emptyStore (initState cfg)"
  by (simp_all add: store_ok_def views_def emptyStore_def initState_def store_history_def
      store_latest_def history_at_def latest_at_def)

lemma store_commit_panics:
  "limit < 0 \<Longrightarrow> store_commit limit st n samp = Inl SliceBoundsOutOfRange"
  by (simp add: store_commit_def Let_def)

lemma store_commit_no_alias:
  assumes "store_ok st" and "store_commit limit st n samp = Inr st'"
    and "history_slots st' k = Some hs" and "latest_slot st' k' = Some b"
  shows "b \<notin> set hs"
  using store_commit_ok [OF assms(1,2)] assms(3,4) unfolding store_ok_def by blast

text \<open>
  C2. After a commit for a node with a history limit of at least one, the latest
  sample stored under the node's name and the last element of its history are equal.
  They are equal values held in two places, since the maps hold samples by value; the
  explicit store shows the two places after a first commit.
\<close>

theorem latest_equals_history_tail:
  assumes "0 < HistoryLimit (Config s)" and "commit s n samp = Inr s'"
  shows "latest_at s' (Name n) = Some samp \<and>
         (\<exists>h. history_at s' (Name n) = Some h \<and> h \<noteq> [] \<and> last h = samp)"
proof -
  have "0 \<le> HistoryLimit (Config s)"
    using assms(1) by simp
  from commit_ok [OF this, of n samp] assms(2)
  have l: "latest_at s' (Name n) = Some samp"
    and h: "history_at s' (Name n) =
      Some (last_n (HistoryLimit (Config s)) (elems (history_at s (Name n)) @ [samp]))"
    by auto
  let ?xs = "elems (history_at s (Name n)) @ [samp]"
  have "length ?xs - nat (HistoryLimit (Config s)) < length ?xs"
    using assms(1) by simp
  then have "last_n (HistoryLimit (Config s)) ?xs \<noteq> [] \<and>
      last (last_n (HistoryLimit (Config s)) ?xs) = last ?xs"
    unfolding last_n_def by (simp only: drop_eq_Nil last_drop not_le simp_thms)
  then show ?thesis
    using l h by simp
qed

theorem latest_equals_history_tail_witness:
  "\<exists>s'. commit (initState exConfig) exNodeA (exSample exNodeA 1) = Inr s' \<and>
     latest_at s' ''alpha'' = Some (exSample exNodeA 1) \<and>
     (\<exists>h. history_at s' ''alpha'' = Some h \<and> h \<noteq> [] \<and> last h = exSample exNodeA 1)"
proof -
  have lim: "0 < HistoryLimit (Config (initState exConfig))"
    by (simp add: initState_def exConfig_def)
  then have "0 \<le> HistoryLimit (Config (initState exConfig))"
    by simp
  then obtain s' where s': "commit (initState exConfig) exNodeA (exSample exNodeA 1) = Inr s'"
    using commit_ok by blast
  have n: "Name exNodeA = ''alpha''"
    by (simp add: exNodeA_def)
  show ?thesis
    using latest_equals_history_tail [OF lim s'] s' unfolding n by blast
qed

theorem latest_is_a_second_copy:
  "store_commit 3 emptyStore exNodeA (exSample exNodeA 1) =
     Inr \<lparr>cells = [0 \<mapsto> exSample exNodeA 1, 1 \<mapsto> exSample exNodeA 1], next_free = 2,
          history_slots = [''alpha'' \<mapsto> [0]], latest_slot = [''alpha'' \<mapsto> 1]\<rparr> \<and>
   last [0 :: addr] \<noteq> 1"
  by (simp add: store_commit_def emptyStore_def elems_def exNodeA_def Let_def)

section \<open>Claims about the history query\<close>

text \<open>
  C3. In a store built by commits from the empty store of \<^verbatim>\<open>main\<close>, a query
  \<^verbatim>\<open>/api/history?node=name\<close> for a name under which nothing was committed is answered with
  status 200 and the body \<^verbatim>\<open>null\<close>, not with an empty array; for a name with commits the
  body is the array of its retained samples, which is empty only when the history limit
  is zero; without the parameter the body is the whole mapping from names to histories.
\<close>

theorem history_query_response:
  assumes "commits (initState cfg) cs = Inr s"
  shows "(name \<noteq> [] \<and> committed_for name cs = [] \<longrightarrow>
            handleHistory s name = \<lparr>resp_status = 200, resp_body = JsonNull\<rparr>) \<and>
         (name \<noteq> [] \<and> committed_for name cs \<noteq> [] \<longrightarrow>
            handleHistory s name =
              \<lparr>resp_status = 200,
               resp_body = JsonArray (last_n (HistoryLimit cfg) (committed_for name cs))\<rparr>) \<and>
         (\<exists>m. history s = Some m \<and> (\<forall>k. m k = history_at s k) \<and>
              handleHistory s [] = \<lparr>resp_status = 200, resp_body = JsonObject m\<rparr>)"
proof -
  note i = commits_from_init [OF assms]
  obtain m where m: "history s = Some m"
    using i by blast
  show ?thesis
    using i m
    by (simp add: handleHistory_def encode_slice_def encode_map_def history_at_def)
qed

theorem history_query_response_witness:
  "\<exists>s. commits (initState exZeroLimit) [(exNodeA, exSample exNodeA 1)] = Inr s \<and>
     handleHistory s ''ghost'' = \<lparr>resp_status = 200, resp_body = JsonNull\<rparr> \<and>
     handleHistory s ''alpha'' = \<lparr>resp_status = 200, resp_body = JsonArray []\<rparr> \<and>
     (\<exists>m. handleHistory s [] = \<lparr>resp_status = 200, resp_body = JsonObject m\<rparr> \<and>
          m ''alpha'' = Some [] \<and> m ''ghost'' = None)"
proof -
  let ?cs = "[(exNodeA, exSample exNodeA 1)]"
  have "0 \<le> HistoryLimit (Config (initState exZeroLimit))"
    by (simp add: initState_def exZeroLimit_def)
  then obtain s where s: "commits (initState exZeroLimit) ?cs = Inr s"
    using commits_history_at by blast
  have c1: "committed_for ''ghost'' ?cs = []" and c2: "committed_for ''alpha'' ?cs \<noteq> []"
    by (simp_all add: committed_for_def exNodeA_def)
  have l: "last_n (HistoryLimit exZeroLimit) (committed_for ''alpha'' ?cs) = []"
    by (simp add: last_n_def exZeroLimit_def committed_for_def)
  note r = history_query_response [OF s]
  have "handleHistory s ''ghost'' = \<lparr>resp_status = 200, resp_body = JsonNull\<rparr>"
    using r [of "''ghost''"] c1 by simp
  moreover have a: "handleHistory s ''alpha'' = \<lparr>resp_status = 200, resp_body = JsonArray []\<rparr>"
    using r [of "''alpha''"] c2 l by simp
  moreover obtain m where m: "history s = Some m" "\<forall>k. m k = history_at s k"
    "handleHistory s [] = \<lparr>resp_status = 200, resp_body = JsonObject m\<rparr>"
    using r [of "[]"] by blast
  moreover have "m ''alpha'' = Some []" and "m ''ghost'' = None"
    using m(1,2) a calculation(1)
    by (auto simp: handleHistory_def encode_slice_def split: option.splits)
  ultimately show ?thesis
    using s by blast
qed

theorem history_query_null_for_unknown:
  "handleHistory (initState exConfig) ''ghost'' = \<lparr>resp_status = 200, resp_body = JsonNull\<rparr> \<and>
   resp_body (handleHistory (initState exConfig) ''ghost'') \<noteq> JsonArray []"
  by (simp add: handleHistory_def encode_slice_def history_at_def initState_def)

section \<open>Claims about the probe\<close>

lemma failed_stage_iff: "failed_stage env n \<noteq> None \<longleftrightarrow> probe_error env n \<noteq> None"
  by (auto simp: failed_stage_def probe_error_def fetchOnce_def Let_def
      split: sum.splits option.splits)

lemma probe_result_cases:
  "(probe_error env n \<noteq> None \<and> fst (fetchOnce env n) = (zeroAgentMetrics, 0, probe_error env n)) \<or>
   (probe_error env n = None \<and>
     (\<exists>host code bd am. url_parse env (URL n) = Inr host \<and>
        tcp_dial env (if CHR '':'' \<in> set host then host else host @ '':80'') = None \<and>
        http_get env (URL n @ ''/metrics'') = Inr (code, bd) \<and> json_decode env bd = Inr am \<and>
        fst (fetchOnce env n) = (am, since_ms env, None)))"
  by (auto simp: probe_error_def fetchOnce_def Let_def split: sum.splits option.splits)

lemma fetchOnce_with_status:
  "fetchOnce (with_status code env) n = fetchOnce env n"
  "failed_stage (with_status code env) n = failed_stage env n"
  by (auto simp: fetchOnce_def failed_stage_def with_status_def Let_def
      split: sum.splits option.splits)

lemma pollNode_latest:
  assumes "pollNode env now s n = Inr s'"
  shows "latest_at s' (Name n) = Some (mkSample n (fst (fetchOnce env n)) now)"
  using assms
  by (cases "latest s")
     (auto simp: pollNode_def commit_def latest_at_def Let_def split: sum.splits)

text \<open>
  C4. In the sample a goroutine commits, the error text is present exactly when one of
  the four calls of the probe returned an error: \<^verbatim>\<open>url.Parse\<close>, the TCP dial,
  \<^verbatim>\<open>client.Do\<close> or the JSON decoder (library errors have a text). The status code of the
  response is not among them: it is never read, the sample is the same whatever the
  status, and a response with status 500 whose body decodes gives a sample without an
  error. When the error text is present the metrics payload is the zero value, so the
  two are never both populated; when it is absent the payload is what the body of the
  node's answer decoded to. That payload can itself be the zero value (a node that
  answers \<^verbatim>\<open>{}\<close>), so an empty payload does not tell a failure.
\<close>

theorem sample_error_payload:
  assumes "error_texts_nonempty env" and "pollNode env now s n = Inr s'"
  shows "\<exists>samp. latest_at s' (Name n) = Some samp \<and>
           (Error samp \<noteq> [] \<longleftrightarrow> failed_stage env n \<noteq> None) \<and>
           (Error samp \<noteq> [] \<longrightarrow> Agent samp = zeroAgentMetrics) \<and>
           (Error samp = [] \<longrightarrow>
              (\<exists>host code bd. url_parse env (URL n) = Inr host \<and>
                 http_get env (URL n @ ''/metrics'') = Inr (code, bd) \<and>
                 json_decode env bd = Inr (Agent samp))) \<and>
           (\<forall>code. pollNode (with_status code env) now s n = Inr s' \<and>
                   failed_stage (with_status code env) n = failed_stage env n)"
proof -
  let ?samp = "mkSample n (fst (fetchOnce env n)) now"
  have ne: "probe_error env n \<noteq> Some []"
    using assms(1)
    by (auto simp: error_texts_nonempty_def probe_error_def fetchOnce_def Let_def
        split: sum.splits option.splits)
  have e: "Error ?samp \<noteq> [] \<longleftrightarrow> failed_stage env n \<noteq> None"
    using probe_result_cases [of env n] failed_stage_iff [of env n] ne
    by (auto simp: mkSample_def)
  have z: "Error ?samp \<noteq> [] \<longrightarrow> Agent ?samp = zeroAgentMetrics"
    using probe_result_cases [of env n]
    by (auto simp: mkSample_def)
  have p: "Error ?samp = [] \<longrightarrow>
              (\<exists>host code bd. url_parse env (URL n) = Inr host \<and>
                 http_get env (URL n @ ''/metrics'') = Inr (code, bd) \<and>
                 json_decode env bd = Inr (Agent ?samp))"
    using probe_result_cases [of env n] ne
    by (auto simp: mkSample_def)
  have w: "\<forall>code. pollNode (with_status code env) now s n = Inr s' \<and>
                   failed_stage (with_status code env) n = failed_stage env n"
    using assms(2) by (simp add: pollNode_def fetchOnce_with_status)
  show ?thesis
    using pollNode_latest [OF assms(2)] e z p w by blast
qed

theorem sample_error_payload_witness:
  "error_texts_nonempty exEnvRefused \<and>
   (\<exists>s' samp. pollNode exEnvRefused (exInstant 2) (initState exConfig) exNodeA = Inr s' \<and>
      latest_at s' ''alpha'' = Some samp \<and>
      Error samp = ''dial tcp 10.0.0.5:9876: connect: connection refused'' \<and>
      Agent samp = zeroAgentMetrics)"
proof -
  have t: "error_texts_nonempty exEnvRefused"
    by (simp add: error_texts_nonempty_def exEnvRefused_def exEnvOk_def exParse_def exNodeA_def)
  have "0 \<le> HistoryLimit (Config (initState exConfig))"
    by (simp add: initState_def exConfig_def)
  then obtain s' where s': "pollNode exEnvRefused (exInstant 2) (initState exConfig) exNodeA = Inr s'"
    unfolding pollNode_def using commit_ok by blast
  have n: "Name exNodeA = ''alpha''"
    by (simp add: exNodeA_def)
  have f: "fst (fetchOnce exEnvRefused exNodeA) =
      (zeroAgentMetrics, 0, Some ''dial tcp 10.0.0.5:9876: connect: connection refused'')"
    by (simp add: fetchOnce_def exEnvRefused_def exEnvOk_def exParse_def exNodeA_def)
  obtain samp where samp: "latest_at s' ''alpha'' = Some samp"
    "Error samp \<noteq> [] \<longrightarrow> Agent samp = zeroAgentMetrics"
    using sample_error_payload [OF t s'] unfolding n by blast
  have "Error samp = ''dial tcp 10.0.0.5:9876: connect: connection refused''"
    using pollNode_latest [OF s'] samp(1) unfolding n f by (simp add: mkSample_def)
  with samp t s' show ?thesis by auto
qed

theorem no_error_with_empty_payload:
  "http_get exEnvStatus500 (URL exNodeA @ ''/metrics'') = Inr (500, ''{}'') \<and>
   pollNode exEnvStatus500 (exInstant 1) (initState exConfig) exNodeA =
     Inr \<lparr>Config = exConfig, history = Some [''alpha'' \<mapsto> [exEmptySample]],
          latest = Some [''alpha'' \<mapsto> exEmptySample]\<rparr> \<and>
   http_get exEnvEmptyObject (URL exNodeA @ ''/metrics'') = Inr (200, ''{}'') \<and>
   pollNode exEnvEmptyObject (exInstant 1) (initState exConfig) exNodeA =
     Inr \<lparr>Config = exConfig, history = Some [''alpha'' \<mapsto> [exEmptySample]],
          latest = Some [''alpha'' \<mapsto> exEmptySample]\<rparr> \<and>
   Error exEmptySample = [] \<and> Agent exEmptySample = zeroAgentMetrics"
  by (simp add: pollNode_def commit_def append_capped_def elems_def initState_def
      exConfig_def exNodeA_def mkSample_def fetchOnce_def exEnvStatus500_def with_status_def
      exEnvEmptyObject_def exEnvOk_def exParse_def exEmptySample_def Let_def)

lemma probe_actions_prefix:
  "probe_actions env n = [] \<or>
   (\<exists>host. url_parse env (URL n) = Inr host \<and>
      (probe_actions env n = [TcpDial (if CHR '':'' \<in> set host then host else host @ '':80'')] \<or>
       probe_actions env n = [TcpDial (if CHR '':'' \<in> set host then host else host @ '':80''),
                              HttpGet (URL n @ ''/metrics'')]))"
  by (auto simp: probe_actions_def fetchOnce_def Let_def split: sum.splits option.splits)

text \<open>
  C9. A node whose address has no explicit port is to be dialed on port 80 by the
  connectivity check, a host with a port as given, and the fetch goes to the configured
  URL followed by \<^verbatim>\<open>/metrics\<close>. The probe takes the presence of a colon in the host
  for a port. For the node URL \<^verbatim>\<open>http://[::1]\<close>, an address without a port, the host
  \<^verbatim>\<open>[::1]\<close> holds colons: the probe dials it as it stands, without a port, the dial
  fails, and port 80 is never tried.
\<close>

theorem ipv6_literal_dialed_without_port:
  "fetchOnce exEnvV6 exNodeV6 =
     ((zeroAgentMetrics, 0, Some ''dial tcp: address [::1]: missing port in address''),
      [TcpDial ''[::1]''])"
  by (simp add: fetchOnce_def exEnvV6_def exEnvOk_def exParse_def exNodeV6_def)

text \<open>
  C10. When the probe fails at any stage (URL parse, TCP dial, HTTP fetch or body
  decode), the committed sample has latency 0, whatever time went by; a latency other
  than 0 appears only in the sample of a probe that passed every stage, where it is
  the measured time.
\<close>

theorem failed_probe_latency_zero:
  assumes "pollNode env now s n = Inr s'"
  shows "\<exists>samp. latest_at s' (Name n) = Some samp \<and>
           (failed_stage env n \<noteq> None \<longrightarrow> LatencyMs samp = 0) \<and>
           (LatencyMs samp \<noteq> 0 \<longrightarrow>
              failed_stage env n = None \<and> Error samp = [] \<and> LatencyMs samp = since_ms env)"
proof -
  let ?samp = "mkSample n (fst (fetchOnce env n)) now"
  have "latest_at s' (Name n) = Some ?samp"
    using assms
    by (cases "latest s")
       (auto simp: pollNode_def commit_def latest_at_def Let_def split: sum.splits)
  moreover have "failed_stage env n \<noteq> None \<longrightarrow> LatencyMs ?samp = 0"
    using probe_result_cases [of env n] failed_stage_iff [of env n]
    by (auto simp: mkSample_def)
  moreover have "LatencyMs ?samp \<noteq> 0 \<longrightarrow>
      failed_stage env n = None \<and> Error ?samp = [] \<and> LatencyMs ?samp = since_ms env"
    using probe_result_cases [of env n] failed_stage_iff [of env n]
    by (auto simp: mkSample_def)
  ultimately show ?thesis by blast
qed

theorem failed_probe_latency_zero_witness:
  "\<exists>s' samp. pollNode exEnvRefused (exInstant 2) (initState exConfig) exNodeA = Inr s' \<and>
      latest_at s' ''alpha'' = Some samp \<and>
      failed_stage exEnvRefused exNodeA = Some TcpConnect \<and> LatencyMs samp = 0"
proof -
  have "0 \<le> HistoryLimit (Config (initState exConfig))"
    by (simp add: initState_def exConfig_def)
  then obtain s' where s': "pollNode exEnvRefused (exInstant 2) (initState exConfig) exNodeA = Inr s'"
    unfolding pollNode_def using commit_ok by blast
  have n: "Name exNodeA = ''alpha''"
    by (simp add: exNodeA_def)
  have f: "failed_stage exEnvRefused exNodeA = Some TcpConnect"
    by (simp add: failed_stage_def exEnvRefused_def exEnvOk_def exParse_def exNodeA_def)
  show ?thesis
    using failed_probe_latency_zero [OF s'] s' f unfolding n by auto
qed

section \<open>Lemmas about the formats\<close>

lemma digit_val_digit_char: "d < 10 \<Longrightarrow> digit_val (digit_char d) = d"
proof -
  assume "d < 10"
  then have "d \<in> {0, 1, 2, 3, 4, 5, 6, 7, 8, 9}" by auto
  then show ?thesis
    by (auto simp: digit_val_def digit_char_def)
qed

lemma is_digit_digit_char: "d < 10 \<Longrightarrow> is_digit (digit_char d)"
proof -
  assume "d < 10"
  then have "d \<in> {0, 1, 2, 3, 4, 5, 6, 7, 8, 9}" by auto
  then show ?thesis
    by (auto simp: is_digit_def digit_char_def)
qed

lemma digit_char_0: "digit_char 0 = CHR ''0''"
  by (simp add: digit_char_def)

lemma decode_digits_acc:
  "decode_digits acc xs = acc * 10 ^ length xs + decode_digits 0 xs"
proof (induction xs arbitrary: acc)
  case Nil
  then show ?case by simp
next
  case (Cons c cs)
  show ?case
    using Cons [of "10 * acc + digit_val c"] Cons [of "digit_val c"]
    by (simp add: algebra_simps)
qed

lemma decode_digits_append:
  "decode_digits acc (xs @ ys) = decode_digits (decode_digits acc xs) ys"
  by (induction xs arbitrary: acc) simp_all

lemma decode_nat_append:
  "decode_nat (xs @ ys) = decode_nat xs * 10 ^ length ys + decode_nat ys"
  unfolding decode_nat_def decode_digits_append
  by (rule decode_digits_acc)

lemma decode_nat_single: "decode_nat [c] = digit_val c"
  by (simp add: decode_nat_def)

lemma decode_nat_show_nat: "decode_nat (show_nat n) = n"
proof (induction n rule: show_nat.induct)
  case (1 n)
  show ?case
  proof (cases "n < 10")
    case True
    then show ?thesis
      by (subst show_nat.simps) (simp add: decode_nat_single digit_val_digit_char)
  next
    case False
    then have "decode_nat (show_nat (n div 10)) = n div 10"
      using 1 by simp
    then show ?thesis
      using False
      by (subst show_nat.simps)
         (simp add: decode_nat_append decode_nat_single digit_val_digit_char)
  qed
qed

lemma show_nat_digits: "list_all is_digit (show_nat n)"
proof (induction n rule: show_nat.induct)
  case (1 n)
  show ?case
  proof (cases "n < 10")
    case True
    then show ?thesis
      by (subst show_nat.simps) (simp add: is_digit_digit_char)
  next
    case False
    then show ?thesis
      using 1 by (subst show_nat.simps) (simp add: is_digit_digit_char)
  qed
qed

lemma show_nat_nonempty: "show_nat n \<noteq> []"
  by (subst show_nat.simps) simp

lemma length_show_nat: "n < 10 ^ p \<Longrightarrow> 0 < p \<Longrightarrow> length (show_nat n) \<le> p"
proof (induction n arbitrary: p rule: show_nat.induct)
  case (1 n)
  show ?case
  proof (cases "n < 10")
    case True
    then show ?thesis
      using "1.prems" by (subst show_nat.simps) simp
  next
    case False
    obtain q where q: "p = Suc q"
      using "1.prems"(2) by (cases p) auto
    have "q \<noteq> 0"
      using False "1.prems"(1) q by (cases q) auto
    moreover have "n div 10 < 10 ^ q"
      using "1.prems"(1) q by (simp add: less_mult_imp_div_less mult.commute)
    ultimately have "length (show_nat (n div 10)) \<le> q"
      using "1.IH" [OF False, of q] by simp
    then show ?thesis
      using False q by (subst show_nat.simps) simp
  qed
qed

lemma length_pad_left: "length s \<le> w \<Longrightarrow> length (pad_left w s) = w"
  by (simp add: pad_left_def)

lemma decode_nat_replicate_0: "decode_nat (replicate k CHR ''0'' @ s) = decode_nat s"
proof -
  have "decode_digits 0 (replicate k CHR ''0'') = 0"
    by (induction k) (simp_all add: digit_val_def)
  then show ?thesis
    by (simp add: decode_nat_def decode_digits_append)
qed

lemma decode_nat_pad_left: "decode_nat (pad_left w s) = decode_nat s"
  by (simp add: pad_left_def decode_nat_replicate_0)

lemma is_digit_0: "is_digit CHR ''0''"
  by (simp add: is_digit_def)

lemma pad_left_digits: "list_all is_digit s \<Longrightarrow> list_all is_digit (pad_left w s)"
  by (auto simp: pad_left_def is_digit_0 list_all_iff)

text \<open>A zero-padded number of a fixed width.\<close>

lemma padded_field:
  assumes "n < 10 ^ w" and "0 < w"
  shows "length (pad_left w (show_nat n)) = w"
    and "decode_nat (pad_left w (show_nat n)) = n"
    and "list_all is_digit (pad_left w (show_nat n))"
  using assms
  by (simp_all add: length_pad_left length_show_nat decode_nat_pad_left decode_nat_show_nat
      pad_left_digits show_nat_digits)

lemma decode_format_RFC3339:
  assumes "valid_instant t"
  shows "decode_RFC3339 (format_RFC3339 t) = t\<lparr>nsec := 0\<rparr>"
proof -
  have y: "year t < 10 ^ 4" and mo: "month t < 10 ^ 2" and d: "day t < 10 ^ 2"
    and h: "hour t < 10 ^ 2" and mi: "minute t < 10 ^ 2" and s: "second t < 10 ^ 2"
    using assms by (simp_all add: valid_instant_def)
  show ?thesis
    unfolding format_RFC3339_def decode_RFC3339_def
    using padded_field(1,2) [OF y] padded_field(1,2) [OF mo] padded_field(1,2) [OF d]
      padded_field(1,2) [OF h] padded_field(1,2) [OF mi] padded_field(1,2) [OF s]
    by simp
qed

lemma format_RFC3339_shape:
  assumes "valid_instant t"
  shows "is_rfc3339_utc (format_RFC3339 t)"
proof -
  have y: "year t < 10 ^ 4" and mo: "month t < 10 ^ 2" and d: "day t < 10 ^ 2"
    and h: "hour t < 10 ^ 2" and mi: "minute t < 10 ^ 2" and s: "second t < 10 ^ 2"
    using assms by (simp_all add: valid_instant_def)
  show ?thesis
    unfolding format_RFC3339_def is_rfc3339_utc_def
    using padded_field(1,3) [OF y] padded_field(1,3) [OF mo] padded_field(1,3) [OF d]
      padded_field(1,3) [OF h] padded_field(1,3) [OF mi] padded_field(1,3) [OF s]
    by (simp add: nth_append)
qed

lemma format_RFC3339_ignores_nsec: "format_RFC3339 (t\<lparr>nsec := k\<rparr>) = format_RFC3339 t"
  by (simp add: format_RFC3339_def)

text \<open>The export loop\<close>

lemma write_samples_eq: "write_samples n xs out = out @ map (csv_row n) xs"
  by (induction xs arbitrary: out) simp_all

lemma write_nodes_eq:
  "write_nodes s ns out =
     out @ concat (map (\<lambda>n. map (csv_row n) (elems (history_at s (Name n)))) ns)"
  by (induction ns arbitrary: out) (simp_all add: write_samples_eq)

lemma handleExportCSV_eq:
  "handleExportCSV s =
     csv_header # concat (map (\<lambda>n. map (csv_row n) (elems (history_at s (Name n)))) (Nodes (Config s)))"
  by (simp add: handleExportCSV_def write_nodes_eq)

lemma round_half_even_error: "\<bar>of_int (round_half_even q) - q\<bar> \<le> 1 / 2"
proof -
  have "of_int \<lfloor>q\<rfloor> \<le> q" and "q < of_int \<lfloor>q\<rfloor> + 1"
    by linarith+
  then show ?thesis
    by (auto simp: round_half_even_def Let_def abs_le_iff not_less)
qed

lemma round_half_even_nonneg: "0 \<le> q \<Longrightarrow> 0 \<le> round_half_even q"
  by (auto simp: round_half_even_def Let_def)

lemma is_digit_not_punct: "is_digit c \<Longrightarrow> c \<noteq> CHR ''.'' \<and> c \<noteq> CHR ''-''"
  by (auto simp: is_digit_def)

lemma takeWhile_digits:
  assumes "list_all is_digit I"
  shows "takeWhile (\<lambda>c. c \<noteq> CHR ''.'') (I @ CHR ''.'' # F) = I"
    and "dropWhile (\<lambda>c. c \<noteq> CHR ''.'') (I @ CHR ''.'' # F) = CHR ''.'' # F"
    and "takeWhile (\<lambda>c. c \<noteq> CHR ''.'') I = I"
    and "dropWhile (\<lambda>c. c \<noteq> CHR ''.'') I = []"
  using assms is_digit_not_punct
  by (auto simp: list_all_iff takeWhile_append2 dropWhile_append2 takeWhile_eq_all_conv)

lemma decode_fixed_digits:
  assumes "list_all is_digit I" and "I \<noteq> []" and "p = 0 \<or> length F = p"
  shows "decode_fixed ((if neg then ''-'' else []) @ I @ (if p = 0 then [] else CHR ''.'' # F)) =
     (if neg then - 1 else 1) * of_nat (decode_nat (I @ (if p = 0 then [] else F))) / 10 ^ p"
proof -
  let ?P = "\<lambda>c. c \<noteq> CHR ''.''"
  let ?digits = "I @ (if p = 0 then [] else CHR ''.'' # F)"
  have "is_digit (hd I)"
    using assms(1,2) by (cases I) auto
  then have hd: "hd ?digits \<noteq> CHR ''-''" and ne: "?digits \<noteq> []"
    using assms(2) is_digit_not_punct by (auto simp: hd_append2)
  have tw: "takeWhile ?P ?digits = I"
    and dw: "drop 1 (dropWhile ?P ?digits) = (if p = 0 then [] else F)"
    using takeWhile_digits [OF assms(1)] by auto
  have len: "length (if p = 0 then [] else F) = p"
    using assms(3) by auto
  show ?thesis
  proof (cases neg)
    case True
    then have "decode_fixed ((if neg then ''-'' else []) @ ?digits) =
        - (of_nat (decode_nat (takeWhile ?P ?digits @ drop 1 (dropWhile ?P ?digits))) /
           10 ^ length (drop 1 (dropWhile ?P ?digits)))"
      by (simp add: decode_fixed_def Let_def del: takeWhile_append dropWhile_append)
    then show ?thesis
      unfolding tw dw len using True by simp
  next
    case False
    then have "decode_fixed ((if neg then ''-'' else []) @ ?digits) =
        of_nat (decode_nat (takeWhile ?P ?digits @ drop 1 (dropWhile ?P ?digits))) /
           10 ^ length (drop 1 (dropWhile ?P ?digits))"
      using hd ne by (simp add: decode_fixed_def Let_def del: takeWhile_append dropWhile_append)
    then show ?thesis
      unfolding tw dw len using False by simp
  qed
qed

lemma decode_Sprintf_fixed:
  "decode_fixed (Sprintf_fixed p x) =
     (if x < 0 then - 1 else 1) * of_int (round_half_even (\<bar>x\<bar> * 10 ^ p)) / 10 ^ p"
proof -
  let ?m = "nat (round_half_even (\<bar>x\<bar> * 10 ^ p))"
  let ?I = "show_nat (?m div 10 ^ p)"
  let ?F = "pad_left p (show_nat (?m mod 10 ^ p))"
  have m: "int ?m = round_half_even (\<bar>x\<bar> * 10 ^ p)"
    using round_half_even_nonneg [of "\<bar>x\<bar> * 10 ^ p"] by simp
  have F: "p = 0 \<or> length ?F = p"
    using padded_field(1) [of "?m mod 10 ^ p" p] by auto
  have "decode_nat (?I @ (if p = 0 then [] else ?F)) = ?m"
  proof (cases "p = 0")
    case True
    then show ?thesis by (simp add: decode_nat_show_nat)
  next
    case False
    then have "length ?F = p" and "decode_nat ?F = ?m mod 10 ^ p"
      using padded_field(1,2) [of "?m mod 10 ^ p" p] by auto
    then show ?thesis
      using False div_mult_mod_eq [of ?m "10 ^ p"]
      by (simp add: decode_nat_append decode_nat_show_nat del: div_mult_mod_eq)
  qed
  then have "decode_fixed (Sprintf_fixed p x) = (if x < 0 then - 1 else 1) * of_nat ?m / 10 ^ p"
    unfolding Sprintf_fixed_def Let_def
    using decode_fixed_digits [where I = ?I and F = ?F and p = p and neg = "x < 0",
        OF show_nat_digits show_nat_nonempty F]
    by simp
  also have "of_nat ?m = (of_int (round_half_even (\<bar>x\<bar> * 10 ^ p)) :: rat)"
    using m by (metis of_int_of_nat_eq)
  finally show ?thesis .
qed

lemma decode_Sprintf_fixed_error:
  "\<bar>decode_fixed (Sprintf_fixed p x) - x\<bar> \<le> 1 / (2 * 10 ^ p)"
proof -
  let ?q = "\<bar>x\<bar> * 10 ^ p"
  let ?r = "of_int (round_half_even ?q) :: rat"
  have e: "\<bar>?r - ?q\<bar> \<le> 1 / 2"
    by (rule round_half_even_error)
  have "decode_fixed (Sprintf_fixed p x) - x = (if x < 0 then - 1 else 1) * (?r - ?q) / 10 ^ p"
    unfolding decode_Sprintf_fixed by (simp add: field_simps)
  then have "\<bar>decode_fixed (Sprintf_fixed p x) - x\<bar> = \<bar>?r - ?q\<bar> / 10 ^ p"
    by (simp add: abs_mult)
  also have "\<dots> \<le> (1 / 2) / 10 ^ p"
    by (rule divide_right_mono [OF e]) simp
  finally show ?thesis by simp
qed

lemma decode_Sprint_int64: "decode_int (Sprint_int64 i) = i"
proof (cases "i < 0")
  case True
  then show ?thesis
    by (simp add: decode_int_def Sprint_int64_def decode_nat_show_nat)
next
  case False
  have "hd (show_nat (nat i)) \<noteq> CHR ''-''"
    using show_nat_digits [of "nat i"] show_nat_nonempty [of "nat i"] is_digit_not_punct
    by (cases "show_nat (nat i)") auto
  then show ?thesis
    using False by (simp add: decode_int_def Sprint_int64_def decode_nat_show_nat)
qed

lemma decode_Sprint_uint64: "decode_nat (Sprint_uint64 w) = unat w"
  by (simp add: Sprint_uint64_def decode_nat_show_nat)

lemma length_concat_map:
  "length (concat (map (\<lambda>n. map (f n) (g n)) ns)) = sum_list (map (\<lambda>n. length (g n)) ns)"
  by (induction ns) simp_all

lemma round_half_even_of_int: "round_half_even (of_int k) = k"
  by (simp add: round_half_even_def)

lemma round_half_even_numeral: "round_half_even (numeral k) = numeral k"
  using round_half_even_of_int [of "numeral k"] by simp

lemma round_half_even_0: "round_half_even 0 = 0"
  using round_half_even_of_int [of 0] by simp

lemmas format_eval = csv_row_def format_RFC3339_def Sprint_int64_def Sprint_uint64_def
  Sprintf_fixed_def pad_left_def show_nat.simps digit_char_def round_half_even_numeral
  round_half_even_0 Let_def

lemma round_half_even_ex: "round_half_even (4001 / 4) = 1000"
proof -
  have "\<lfloor>(4001 :: rat) / 4\<rfloor> = 1000"
    by (simp add: floor_eq_iff)
  then show ?thesis
    by (simp add: round_half_even_def)
qed

section \<open>Claims about the exports\<close>

text \<open>
  C7. In a store built by commits from the empty store of \<^verbatim>\<open>main\<close>, with node names that
  differ from one configured node to the next, the CSV export has the header
  \<^verbatim>\<open>time,node,group,latency_ms,cpu_pct,mem_pct,tx_bps,rx_bps,uptime_sec\<close> as its first
  record, followed by one record for every retained sample of every configured node, in
  the order of the configuration and of the histories, as many records as the histories
  hold samples; the first field of a record is the sample's time in UTC as an RFC 3339
  date-time.
\<close>

theorem csv_export_rows:
  assumes "commits (initState cfg) cs = Inr s" and "distinct (map Name (Nodes cfg))"
  shows "hd (handleExportCSV s) =
           [''time'', ''node'', ''group'', ''latency_ms'', ''cpu_pct'', ''mem_pct'', ''tx_bps'',
            ''rx_bps'', ''uptime_sec''] \<and>
         tl (handleExportCSV s) =
           concat (map (\<lambda>n. map (csv_row n)
                     (last_n (HistoryLimit cfg) (committed_for (Name n) cs))) (Nodes cfg)) \<and>
         length (tl (handleExportCSV s)) =
           (\<Sum>name \<in> Name ` set (Nodes cfg). length (elems (history_at s name))) \<and>
         (\<forall>n samp. valid_instant (Time samp) \<longrightarrow>
            hd (csv_row n samp) = format_RFC3339 (Time samp) \<and>
            is_rfc3339_utc (hd (csv_row n samp)) \<and>
            decode_RFC3339 (hd (csv_row n samp)) = (Time samp)\<lparr>nsec := 0\<rparr>)"
proof -
  note i = commits_from_init [OF assms(1)]
  have e: "elems (history_at s name) = last_n (HistoryLimit cfg) (committed_for name cs)" for name
    using i by (simp add: elems_def last_n_def)
  have t: "tl (handleExportCSV s) =
      concat (map (\<lambda>n. map (csv_row n) (elems (history_at s (Name n)))) (Nodes cfg))"
    using i by (simp add: handleExportCSV_eq)
  have "length (tl (handleExportCSV s)) =
      sum_list (map (\<lambda>name. length (elems (history_at s name))) (map Name (Nodes cfg)))"
    unfolding t length_concat_map by (simp add: comp_def)
  also have "\<dots> = (\<Sum>name \<in> set (map Name (Nodes cfg)). length (elems (history_at s name)))"
    using assms(2) by (rule sum_list_distinct_conv_sum_set)
  finally have c: "length (tl (handleExportCSV s)) =
      (\<Sum>name \<in> Name ` set (Nodes cfg). length (elems (history_at s name)))"
    by simp
  have h: "hd (handleExportCSV s) =
           [''time'', ''node'', ''group'', ''latency_ms'', ''cpu_pct'', ''mem_pct'', ''tx_bps'',
            ''rx_bps'', ''uptime_sec'']"
    by (simp add: handleExportCSV_eq csv_header_def)
  have r: "\<forall>n samp. valid_instant (Time samp) \<longrightarrow>
            hd (csv_row n samp) = format_RFC3339 (Time samp) \<and>
            is_rfc3339_utc (hd (csv_row n samp)) \<and>
            decode_RFC3339 (hd (csv_row n samp)) = (Time samp)\<lparr>nsec := 0\<rparr>"
    by (simp add: csv_row_def format_RFC3339_shape decode_format_RFC3339)
  show ?thesis
    using h t c r unfolding e by blast
qed

theorem csv_export_rows_witness:
  "\<exists>s. commits (initState exConfig)
          [(exNodeA, exSample exNodeA 1), (exNodeB, exSample exNodeB 1),
           (exNodeA, exSample exNodeA 2), (exNodeA, exSample exNodeA 3),
           (exNodeB, exSample exNodeB 2), (exNodeA, exSample exNodeA 4),
           (exNodeA, exSample exNodeA 5)] = Inr s \<and>
     distinct (map Name (Nodes exConfig)) \<and>
     handleExportCSV s =
       [[''time'', ''node'', ''group'', ''latency_ms'', ''cpu_pct'', ''mem_pct'', ''tx_bps'',
         ''rx_bps'', ''uptime_sec''],
        [''2024-05-17T09:30:03Z'', ''alpha'', ''lab'', ''7'', ''12.50'', ''40.00'', ''1000'', ''2000'', ''3600''],
        [''2024-05-17T09:30:04Z'', ''alpha'', ''lab'', ''7'', ''12.50'', ''40.00'', ''1000'', ''2000'', ''3600''],
        [''2024-05-17T09:30:05Z'', ''alpha'', ''lab'', ''7'', ''12.50'', ''40.00'', ''1000'', ''2000'', ''3600''],
        [''2024-05-17T09:30:01Z'', ''beta'', ''lab'', ''7'', ''12.50'', ''40.00'', ''1000'', ''2000'', ''3600''],
        [''2024-05-17T09:30:02Z'', ''beta'', ''lab'', ''7'', ''12.50'', ''40.00'', ''1000'', ''2000'', ''3600'']]"
proof -
  let ?cs = "[(exNodeA, exSample exNodeA 1), (exNodeB, exSample exNodeB 1),
           (exNodeA, exSample exNodeA 2), (exNodeA, exSample exNodeA 3),
           (exNodeB, exSample exNodeB 2), (exNodeA, exSample exNodeA 4),
           (exNodeA, exSample exNodeA 5)]"
  have "0 \<le> HistoryLimit (Config (initState exConfig))"
    by (simp add: initState_def exConfig_def)
  then obtain s where s: "commits (initState exConfig) ?cs = Inr s"
    using commits_history_at by blast
  have d: "distinct (map Name (Nodes exConfig))"
    by (simp add: exConfig_def exNodeA_def exNodeB_def)
  have cA: "last_n (HistoryLimit exConfig) (committed_for (Name exNodeA) ?cs) =
      [exSample exNodeA 3, exSample exNodeA 4, exSample exNodeA 5]"
    by (simp add: committed_for_def exNodeA_def exNodeB_def exConfig_def last_n_def)
  have cB: "last_n (HistoryLimit exConfig) (committed_for (Name exNodeB) ?cs) =
      [exSample exNodeB 1, exSample exNodeB 2]"
    by (simp add: committed_for_def exNodeA_def exNodeB_def exConfig_def last_n_def)
  have n: "Nodes exConfig = [exNodeA, exNodeB]"
    by (simp add: exConfig_def)
  have rows:
    "csv_row exNodeA (exSample exNodeA 3) =
      [''2024-05-17T09:30:03Z'', ''alpha'', ''lab'', ''7'', ''12.50'', ''40.00'', ''1000'', ''2000'', ''3600'']"
    "csv_row exNodeA (exSample exNodeA 4) =
      [''2024-05-17T09:30:04Z'', ''alpha'', ''lab'', ''7'', ''12.50'', ''40.00'', ''1000'', ''2000'', ''3600'']"
    "csv_row exNodeA (exSample exNodeA 5) =
      [''2024-05-17T09:30:05Z'', ''alpha'', ''lab'', ''7'', ''12.50'', ''40.00'', ''1000'', ''2000'', ''3600'']"
    "csv_row exNodeB (exSample exNodeB 1) =
      [''2024-05-17T09:30:01Z'', ''beta'', ''lab'', ''7'', ''12.50'', ''40.00'', ''1000'', ''2000'', ''3600'']"
    "csv_row exNodeB (exSample exNodeB 2) =
      [''2024-05-17T09:30:02Z'', ''beta'', ''lab'', ''7'', ''12.50'', ''40.00'', ''1000'', ''2000'', ''3600'']"
    by (simp_all add: format_eval exSample_def exInstant_def exMetrics_def exNodeA_def
        exNodeB_def)
  note t = csv_export_rows [OF s d]
  have hd: "hd (handleExportCSV s) = [''time'', ''node'', ''group'', ''latency_ms'', ''cpu_pct'',
      ''mem_pct'', ''tx_bps'', ''rx_bps'', ''uptime_sec'']"
    using t by blast
  have "tl (handleExportCSV s) =
      concat (map (\<lambda>n. map (csv_row n)
                     (last_n (HistoryLimit exConfig) (committed_for (Name n) ?cs))) (Nodes exConfig))"
    using t by blast
  then have tl: "tl (handleExportCSV s) =
      [csv_row exNodeA (exSample exNodeA 3), csv_row exNodeA (exSample exNodeA 4),
       csv_row exNodeA (exSample exNodeA 5), csv_row exNodeB (exSample exNodeB 1),
       csv_row exNodeB (exSample exNodeB 2)]"
    unfolding n by (simp only: list.map concat.simps cA cB append.simps)
  have ne: "handleExportCSV s \<noteq> []"
    by (simp add: handleExportCSV_eq)
  have "handleExportCSV s = hd (handleExportCSV s) # tl (handleExportCSV s)"
    using ne by simp
  then show ?thesis
    using s d unfolding hd tl rows
    by (intro exI [of _ s]) simp
qed

text \<open>
  C6. What reading an export back gives. From a CSV record: the latency and the uptime
  exactly, the node name and group, the time with its fraction of a second dropped, the
  CPU and memory percentages to within half a hundredth, and the transmit and receive
  rates to within one half only, since they are printed as whole numbers. The body of the
  JSON export is the history mapping itself, read back unchanged.
\<close>

theorem csv_row_decodes:
  assumes "valid_instant (Time samp)"
  shows "decode_RFC3339 (csv_row n samp ! 0) = (Time samp)\<lparr>nsec := 0\<rparr> \<and>
         csv_row n samp ! 1 = Name n \<and> csv_row n samp ! 2 = Group n \<and>
         decode_int (csv_row n samp ! 3) = LatencyMs samp \<and>
         \<bar>decode_fixed (csv_row n samp ! 4) - CPUPercent (Agent samp)\<bar> \<le> 1 / 200 \<and>
         \<bar>decode_fixed (csv_row n samp ! 5) - MemPercent (Agent samp)\<bar> \<le> 1 / 200 \<and>
         \<bar>decode_fixed (csv_row n samp ! 6) - TxBytesPerSec (Net (Agent samp))\<bar> \<le> 1 / 2 \<and>
         \<bar>decode_fixed (csv_row n samp ! 7) - RxBytesPerSec (Net (Agent samp))\<bar> \<le> 1 / 2 \<and>
         decode_nat (csv_row n samp ! 8) = unat (UptimeSec (Agent samp)) \<and>
         decode_json_body (resp_body (handleExportJSON s)) = history s"
proof -
  have "decode_json_body (resp_body (handleExportJSON s)) = history s"
    by (cases "history s") (simp_all add: handleExportJSON_def encode_map_def decode_json_body_def)
  then show ?thesis
    using assms decode_Sprintf_fixed_error [of 2] decode_Sprintf_fixed_error [of 0]
    by (simp add: csv_row_def decode_format_RFC3339 decode_Sprint_int64 decode_Sprint_uint64)
qed

theorem csv_row_decodes_witness:
  "valid_instant (Time exSampleFine) \<and>
   decode_RFC3339 (csv_row exNodeA exSampleFine ! 0) = exInstant 5 \<and>
   decode_int (csv_row exNodeA exSampleFine ! 3) = 7 \<and>
   \<bar>decode_fixed (csv_row exNodeA exSampleFine ! 6) - 4001 / 4\<bar> \<le> 1 / 2 \<and>
   decode_nat (csv_row exNodeA exSampleFine ! 8) = 3600"
proof -
  have v: "valid_instant (Time exSampleFine)"
    by (simp add: valid_instant_def exSampleFine_def exInstant_def)
  show ?thesis
    using csv_row_decodes [OF v, of exNodeA] v
    by (simp add: exSampleFine_def exInstant_def exMetrics_def)
qed

theorem csv_export_drops_precision:
  "commit (initState exConfig) exNodeA exSampleFine = Inr exStateFine \<and>
   commit (initState exConfig) exNodeA (exSample exNodeA 5) = Inr exStateCoarse \<and>
   handleExportCSV exStateFine = handleExportCSV exStateCoarse \<and>
   Time exSampleFine \<noteq> Time (exSample exNodeA 5) \<and>
   TxBytesPerSec (Net (Agent exSampleFine)) \<noteq> TxBytesPerSec (Net (Agent (exSample exNodeA 5))) \<and>
   history_at exStateFine ''alpha'' = Some [exSampleFine] \<and>
   history_at exStateCoarse ''alpha'' = Some [exSample exNodeA 5]"
  by (simp add: handleExportCSV_def exStateFine_def exStateCoarse_def exConfig_def
      commit_def append_capped_def initState_def
      history_at_def elems_def exNodeA_def exNodeB_def exSampleFine_def exSample_def
      exInstant_def exMetrics_def format_eval round_half_even_ex)

section \<open>Claims about the agent\<close>

lemma computeNet_nonneg:
  assumes "rd 0 = 0" and "mono rd"
  shows "0 \<le> TxBytesPerSec (fst (computeNet rd g first again)) \<and>
         0 \<le> RxBytesPerSec (fst (computeNet rd g first again))"
proof -
  have rd: "0 \<le> rd x" if "0 \<le> x" for x
    using monoD [OF assms(2) that] assms(1) by simp
  have u: "0 \<le> rd (unsigned w)" for w :: uint64
  proof (rule rd)
    have "0 \<le> (of_nat (unat w) :: rat)"
      by (rule of_nat_0_le_iff)
    then show "0 \<le> (unsigned w :: rat)"
      by simp
  qed
  have q: "0 \<le> rd (rd (unsigned w) / e)" if "0 < e" for w :: uint64 and e
    by (rule rd) (rule divide_nonneg_pos [OF u that])
  have q1: "0 \<le> rd (rd (unsigned w))" for w :: uint64
    using q [of 1 w] by simp
  show ?thesis
  proof (cases "lastTime g = 0")
    case True
    then show ?thesis by (simp add: computeNet_def)
  next
    case False
    let ?e1 = "Seconds rd (time_Sub (r_now first) (lastTime g))"
    let ?e2 = "Seconds rd (time_Sub (r_now again) (lastTime g))"
    show ?thesis
    proof (cases "?e1 < 1 / 2")
      case True
      then show ?thesis
        using False q [of ?e2] q1 by (cases "?e2 \<le> 0") (simp_all add: computeNet_def Let_def)
    next
      case e: False
      then have "0 < ?e1" by simp
      then show ?thesis
        using False e q [of ?e1] by (simp add: computeNet_def Let_def)
    qed
  qed
qed

lemma Seconds_id [simp]: "Seconds (\<lambda>x. x) d = of_int d / 1000000000"
proof -
  have "trunc_div d 1000000000 * 1000000000 + trunc_rem d 1000000000 = d"
    by (simp add: trunc_rem_def)
  then have "of_int d = (of_int (trunc_div d 1000000000) * 1000000000 + of_int (trunc_rem d 1000000000) :: rat)"
    by (metis of_int_add of_int_mult of_int_numeral)
  then show ?thesis
    by (simp add: Seconds_def Let_def field_simps)
qed

text \<open>
  C8. The transmit and receive rates the agent reports are never negative, for every
  state of its counters and every sequence of readings, the first one and readings after
  a counter reset included: the difference of two counters is taken in 64-bit unsigned
  arithmetic, and the elapsed time it is divided by is made positive. Rounding to
  \<^verbatim>\<open>float64\<close> is any function that is monotone and keeps zero.
\<close>

theorem net_rates_nonneg:
  assumes "rd 0 = 0" and "mono rd"
  shows "\<forall>ns \<in> set (metrics_requests rd g calls).
           0 \<le> TxBytesPerSec ns \<and> 0 \<le> RxBytesPerSec ns"
proof (induction calls arbitrary: g)
  case Nil
  then show ?case by simp
next
  case (Cons c calls)
  obtain first again where c: "c = (first, again)" by (cases c)
  obtain ns g' where r: "computeNet rd g first again = (ns, g')" by (cases "computeNet rd g first again")
  show ?case
    using computeNet_nonneg [OF assms, of g first again] Cons [of g'] by (simp add: c r)
qed

theorem net_rates_nonneg_witness:
  "(\<lambda>x :: rat. x) 0 = 0 \<and> mono (\<lambda>x :: rat. x) \<and>
   metrics_requests (\<lambda>x. x) zeroGlobals exCalls =
     [\<lparr>TxBytesPerSec = 0, RxBytesPerSec = 0\<rparr>,
      \<lparr>TxBytesPerSec = 1000, RxBytesPerSec = 2000\<rparr>,
      \<lparr>TxBytesPerSec = 9223372036854774508, RxBytesPerSec = 0\<rparr>,
      \<lparr>TxBytesPerSec = 1000, RxBytesPerSec = 1000\<rparr>] \<and>
   list_all (\<lambda>ns. 0 \<le> TxBytesPerSec ns \<and> 0 \<le> RxBytesPerSec ns)
     (metrics_requests (\<lambda>x. x) zeroGlobals exCalls)"
proof -
  have m: "mono (\<lambda>x :: rat. x)"
    by (simp add: mono_def)
  have r: "metrics_requests (\<lambda>x. x) zeroGlobals exCalls =
     [\<lparr>TxBytesPerSec = 0, RxBytesPerSec = 0\<rparr>,
      \<lparr>TxBytesPerSec = 1000, RxBytesPerSec = 2000\<rparr>,
      \<lparr>TxBytesPerSec = 9223372036854774508, RxBytesPerSec = 0\<rparr>,
      \<lparr>TxBytesPerSec = 1000, RxBytesPerSec = 1000\<rparr>]"
    by (simp add: exCalls_def exReading_def zeroGlobals_def computeNet_def time_Sub_def Let_def)
  show ?thesis
    using net_rates_nonneg [of "\<lambda>x. x" zeroGlobals exCalls, OF _ m] r
    by (simp add: m list_all_iff)
qed

end
